theory Spec2Isabelle
  imports Complex_Main "HOL-Library.Multiset" "HOL-Library.Sublist" "HOL-Library.AList"
    "HOL-Library.Log_Nat"
begin

section \<open>Strings\<close>

text \<open>
  A Python string is modelled as the list of its bytes in UTF-8, so an ASCII string is the
  list of its characters. Every topic, field, country and version name of the program
  (\<open>TOPICS\<close>, \<open>COUNTRY_OPTIONS\<close>, \<open>BASE_VERSION\<close>, \<open>NEW_VERSION\<close>) is ASCII.
  \<open>str.upper\<close> maps the letters a-z to A-Z and leaves the other ASCII characters; on
  letters outside ASCII it follows the case mapping of Unicode and can change the length
  of the string. Where the program applies it to a string it is given, \<open>str.upper\<close> is
  therefore a parameter of the model, \<open>str_upper\<close>, and \<open>upper\<close> below is what it does
  on ASCII strings (\<open>upper_on_ascii\<close>). \<open>str.lower\<close> is applied only to the two version
  constants: \<open>lower\<close> is its ASCII form.
\<close>

definition upper_char :: "char \<Rightarrow> char" where
  "upper_char c =
     (let n = (of_char c :: nat) in if 97 \<le> n \<and> n \<le> 122 then char_of (n - 32) else c)"

definition lower_char :: "char \<Rightarrow> char" where
  "lower_char c =
     (let n = (of_char c :: nat) in if 65 \<le> n \<and> n \<le> 90 then char_of (n + 32) else c)"

definition upper :: "string \<Rightarrow> string" where
  "upper s = map upper_char s"

definition lower :: "string \<Rightarrow> string" where
  "lower s = map lower_char s"

text \<open>
  \<open>s.replace(old, new)\<close>: every non-overlapping occurrence of \<open>old\<close>, scanning from the
  left. With an empty \<open>old\<close> Python puts \<open>new\<close> before every character and at the end.
\<close>

fun replace_from :: "string \<Rightarrow> string \<Rightarrow> string \<Rightarrow> string" where
  "replace_from old new [] = []"
| "replace_from old new (c # cs) =
     (if prefix old (c # cs) then new @ replace_from old new (drop (length old - 1) cs)
      else c # replace_from old new cs)"

definition replace :: "string \<Rightarrow> string \<Rightarrow> string \<Rightarrow> string" where
  "replace s old new =
     (if old = [] then new @ concat (map (\<lambda>c. c # new) s) else replace_from old new s)"

definition is_lower_ascii :: "char \<Rightarrow> bool" where
  "is_lower_ascii c = (let n = (of_char c :: nat) in 97 \<le> n \<and> n \<le> 122)"

definition is_ascii :: "char \<Rightarrow> bool" where
  "is_ascii c = ((of_char c :: nat) < 128)"

definition upper_on_ascii :: "(string \<Rightarrow> string) \<Rightarrow> bool" where
  "upper_on_ascii str_upper = (\<forall>s. list_all is_ascii s \<longrightarrow> str_upper s = upper s)"

subsection \<open>Version configuration and table names\<close>

definition BASE_VERSION :: string where
  "BASE_VERSION = ''v5_OCT25''"

definition NEW_VERSION :: string where
  "NEW_VERSION = ''v5_JAN26''"

text \<open>\<open>_alias\<close>: \<open>version.lower().replace("-", "_").replace(" ", "_")\<close>.\<close>

definition version_alias :: "string \<Rightarrow> string" where
  "version_alias version = replace (replace (lower version) ''-'' ''_'') '' '' ''_''"

text \<open>
  \<open>clean_name\<close>: \<open>s.upper().replace(" ", "_").replace("-", "_").replace("'", "")\<close>. A
  space, a hyphen, an apostrophe and an underscore are one byte each in UTF-8, and such a
  byte occurs nowhere in the encoding of another character, so the replacements act on
  the bytes as they act on the characters.
\<close>

definition clean_name :: "(string \<Rightarrow> string) \<Rightarrow> string \<Rightarrow> string" where
  "clean_name str_upper s =
     replace (replace (replace (str_upper s) '' '' ''_'') ''-'' ''_'') [CHR 0x27] []"

definition BASE_A :: string where
  "BASE_A = version_alias BASE_VERSION"

definition NEW_A :: string where
  "NEW_A = version_alias NEW_VERSION"

definition make_comparison_table_name :: "(string \<Rightarrow> string) \<Rightarrow> string \<Rightarrow> string \<Rightarrow> string \<Rightarrow> string" where
  "make_comparison_table_name str_upper topic field country =
     ''COMP_'' @ clean_name str_upper topic @ ''_'' @ clean_name str_upper field
       @ ''_'' @ clean_name str_upper country"

definition make_kpi_table_name :: "(string \<Rightarrow> string) \<Rightarrow> string \<Rightarrow> string \<Rightarrow> string \<Rightarrow> string" where
  "make_kpi_table_name str_upper topic field country =
     ''KPI_'' @ clean_name str_upper topic @ ''_'' @ clean_name str_upper field
       @ ''_'' @ clean_name str_upper country"

section \<open>Numbers\<close>

text \<open>
  A numeric cell of a DataFrame is a float64 (an integer count column is read the same
  way once it takes part in a division). The model keeps the special values of float64
  (\<open>NaN\<close>, which pandas also uses for a missing value, and the two infinities that a
  division by zero produces) and replaces the finite floats by exact rationals: rounding
  and signed zeros are outside the model.
\<close>

datatype number = Fin rat | PosInf | NegInf | NaN

definition isna :: "number \<Rightarrow> bool" where
  "isna x = (x = NaN)"

fun num_neg :: "number \<Rightarrow> number" where
  "num_neg (Fin a) = Fin (- a)"
| "num_neg PosInf = NegInf"
| "num_neg NegInf = PosInf"
| "num_neg NaN = NaN"

fun num_add :: "number \<Rightarrow> number \<Rightarrow> number" where
  "num_add (Fin a) (Fin b) = Fin (a + b)"
| "num_add NaN y = NaN"
| "num_add x NaN = NaN"
| "num_add PosInf NegInf = NaN"
| "num_add NegInf PosInf = NaN"
| "num_add PosInf y = PosInf"
| "num_add x PosInf = PosInf"
| "num_add NegInf y = NegInf"
| "num_add x NegInf = NegInf"

definition num_sub :: "number \<Rightarrow> number \<Rightarrow> number" where
  "num_sub x y = num_add x (num_neg y)"

text \<open>
  Division as pandas does it on numeric columns: a finite value divided by zero is an
  infinity of the sign of the numerator, and zero divided by zero is \<open>NaN\<close>; no exception
  is raised.
\<close>

fun num_div :: "number \<Rightarrow> number \<Rightarrow> number" where
  "num_div (Fin a) (Fin b) =
     (if b \<noteq> 0 then Fin (a / b)
      else if 0 < a then PosInf else if a < 0 then NegInf else NaN)"
| "num_div NaN y = NaN"
| "num_div x NaN = NaN"
| "num_div (Fin a) y = Fin 0"
| "num_div PosInf (Fin b) = (if b < 0 then NegInf else PosInf)"
| "num_div NegInf (Fin b) = (if b < 0 then PosInf else NegInf)"
| "num_div x y = NaN"

fun num_abs :: "number \<Rightarrow> number" where
  "num_abs (Fin a) = Fin \<bar>a\<bar>"
| "num_abs PosInf = PosInf"
| "num_abs NegInf = PosInf"
| "num_abs NaN = NaN"

text \<open>The order of the values that are not \<open>NaN\<close>; \<open>NaN\<close> compares false with everything.\<close>

fun num_le :: "number \<Rightarrow> number \<Rightarrow> bool" where
  "num_le NaN y = False"
| "num_le x NaN = False"
| "num_le (Fin a) (Fin b) = (a \<le> b)"
| "num_le NegInf y = True"
| "num_le x PosInf = True"
| "num_le x y = False"

text \<open>\<open>x != 0\<close> and the truth value of a number (\<open>if x\<close>): only zero is false.\<close>

definition ne0 :: "number \<Rightarrow> bool" where
  "ne0 x = (x \<noteq> Fin 0)"

definition truthy :: "number \<Rightarrow> bool" where
  "truthy x = (x \<noteq> Fin 0)"

subsection \<open>Series\<close>

type_synonym series = "number list"

definition series_sub :: "series \<Rightarrow> series \<Rightarrow> series" where
  "series_sub xs ys = map2 num_sub xs ys"

definition series_div :: "series \<Rightarrow> series \<Rightarrow> series" where
  "series_div xs ys = map2 num_div xs ys"

definition series_ne0 :: "series \<Rightarrow> bool list" where
  "series_ne0 xs = map ne0 xs"

text \<open>\<open>s.where(cond)\<close>: the entries where \<open>cond\<close> is false become \<open>NaN\<close>.\<close>

definition series_where :: "series \<Rightarrow> bool list \<Rightarrow> series" where
  "series_where xs cond = map2 (\<lambda>x c. if c then x else NaN) xs cond"

text \<open>\<open>s.sum()\<close> skips the missing values; the sum of no value is zero.\<close>

definition series_sum :: "series \<Rightarrow> number" where
  "series_sum xs = foldr num_add (filter (\<lambda>x. \<not> isna x) xs) (Fin 0)"

definition series_div_scalar :: "series \<Rightarrow> number \<Rightarrow> series" where
  "series_div_scalar xs t = map (\<lambda>x. num_div x t) xs"

definition series_abs :: "series \<Rightarrow> series" where
  "series_abs xs = map num_abs xs"

section \<open>DataFrames\<close>

text \<open>
  A DataFrame is a header and a list of rows. The warehouse tables read by the dashboard
  have text columns (the category: \<open>field_value\<close>, \<open>industry\<close>, \<open>bgi_soc2_name\<close>) and
  numeric columns (counts, shares); a text cell is \<open>None\<close> for SQL \<open>NULL\<close>. The rows of a
  frame are in positional order, which is the order of its index: every Series the
  program assigns to a frame is computed from that frame or from the frame it was copied
  from, so index alignment is positional. A row holds its cells by column name; a row
  without a cell for a column reads as a missing value there.
\<close>

record row =
  texts :: "(string \<times> string option) list"
  nums :: "(string \<times> number) list"

record frame =
  txt_columns :: "string list"
  num_columns :: "string list"
  rows :: "row list"

datatype error = KeyError string | TypeError string | ValueError string | BadRef nat

definition txt_at :: "row \<Rightarrow> string \<Rightarrow> string option" where
  "txt_at r c = (case map_of (texts r) c of Some v \<Rightarrow> v | None \<Rightarrow> None)"

definition num_at :: "row \<Rightarrow> string \<Rightarrow> number" where
  "num_at r c = (case map_of (nums r) c of Some v \<Rightarrow> v | None \<Rightarrow> NaN)"

text \<open>\<open>c in df.columns\<close>.\<close>

definition has_column :: "frame \<Rightarrow> string \<Rightarrow> bool" where
  "has_column f c = (c \<in> set (txt_columns f) \<or> c \<in> set (num_columns f))"

text \<open>
  \<open>df[c]\<close> read as a numeric Series, and as a text Series. A column that is not in the
  frame is a \<open>KeyError\<close>. Arithmetic on a text column is a \<open>TypeError\<close> in pandas; the
  string form of a float (\<open>astype(str)\<close> on a numeric column) is outside the model and is
  reported as a \<open>TypeError\<close> too.
\<close>

definition get_num :: "frame \<Rightarrow> string \<Rightarrow> error + series" where
  "get_num f c =
     (if c \<in> set (num_columns f) then Inr (map (\<lambda>r. num_at r c) (rows f))
      else if c \<in> set (txt_columns f) then Inl (TypeError c)
      else Inl (KeyError c))"

definition get_txt :: "frame \<Rightarrow> string \<Rightarrow> error + string option list" where
  "get_txt f c =
     (if c \<in> set (txt_columns f) then Inr (map (\<lambda>r. txt_at r c) (rows f))
      else if c \<in> set (num_columns f) then Inl (TypeError c)
      else Inl (KeyError c))"

text \<open>
  \<open>df[c] = s\<close>: the column is replaced, or added at the end of the header. The Series is
  aligned to the rows of the frame: a row without an entry gets a missing value.
\<close>

definition align_to :: "nat \<Rightarrow> 'a \<Rightarrow> 'a list \<Rightarrow> 'a list" where
  "align_to n d s = take n (s @ replicate (n - length s) d)"

definition set_num :: "frame \<Rightarrow> string \<Rightarrow> series \<Rightarrow> frame" where
  "set_num f c s =
     \<lparr> txt_columns = removeAll c (txt_columns f),
       num_columns = (if c \<in> set (num_columns f) then num_columns f else num_columns f @ [c]),
       rows = map2 (\<lambda>r v. \<lparr> texts = AList.delete c (texts r), nums = AList.update c v (nums r) \<rparr>)
                (rows f) (align_to (length (rows f)) NaN s) \<rparr>"

definition set_txt :: "frame \<Rightarrow> string \<Rightarrow> string option list \<Rightarrow> frame" where
  "set_txt f c s =
     \<lparr> txt_columns = (if c \<in> set (txt_columns f) then txt_columns f else txt_columns f @ [c]),
       num_columns = removeAll c (num_columns f),
       rows = map2 (\<lambda>r v. \<lparr> texts = AList.update c v (texts r), nums = AList.delete c (nums r) \<rparr>)
                (rows f) (align_to (length (rows f)) None s) \<rparr>"

subsection \<open>Row operations of pandas\<close>

text \<open>\<open>df.head(n)\<close>.\<close>

definition head :: "nat \<Rightarrow> frame \<Rightarrow> frame" where
  "head n f = f\<lparr>rows := take n (rows f)\<rparr>"

text \<open>\<open>df.dropna(subset=[c])\<close>: the rows whose cell in column \<open>c\<close> is missing are dropped.\<close>

definition dropna :: "string \<Rightarrow> frame \<Rightarrow> error + frame" where
  "dropna c f =
     (if c \<in> set (num_columns f) then Inr (f\<lparr>rows := filter (\<lambda>r. \<not> isna (num_at r c)) (rows f)\<rparr>)
      else if c \<in> set (txt_columns f) then Inr (f\<lparr>rows := filter (\<lambda>r. txt_at r c \<noteq> None) (rows f)\<rparr>)
      else Inl (KeyError c))"

text \<open>
  \<open>df.sort_values(by, ascending=False)\<close> and \<open>df.sort_values(by, key=..., ascending=False)\<close>.
  The program never passes \<open>kind\<close>, so pandas sorts with its default, \<open>quicksort\<close>, which
  pandas documents as not stable, and never passes \<open>na_position\<close>, so the rows with a
  missing key come last, in their original order. The sorting algorithm is code of numpy,
  not of this repository: it is the parameter \<open>kind\<close> of the model, which orders rows
  whose keys are not missing. What the library promises of it is \<open>sorts_descending\<close>: the
  result is a rearrangement of the rows, in descending order of the key. The program
  sorts by numeric columns only, and only that is modelled.
\<close>

type_synonym sorter = "(row \<Rightarrow> number) \<Rightarrow> row list \<Rightarrow> row list"

definition sorts_descending :: "sorter \<Rightarrow> bool" where
  "sorts_descending kind =
     (\<forall>k xs. (\<forall>x \<in> set xs. \<not> isna (k x)) \<longrightarrow>
        mset (kind k xs) = mset xs \<and> sorted_wrt (\<lambda>a b. num_le (k b) (k a)) (kind k xs))"

definition sort_values_desc :: "sorter \<Rightarrow> string \<Rightarrow> (number \<Rightarrow> number) \<Rightarrow> frame \<Rightarrow> error + frame" where
  "sort_values_desc kind by key f =
     (case get_num f by of Inl e \<Rightarrow> Inl e | Inr _ \<Rightarrow>
        Inr (f\<lparr>rows := kind (\<lambda>r. key (num_at r by)) (filter (\<lambda>r. \<not> isna (key (num_at r by))) (rows f))
                        @ filter (\<lambda>r. isna (key (num_at r by))) (rows f)\<rparr>))"

text \<open>
  A sorting algorithm that keeps the promise: \<open>stable_desc\<close> is an insertion sort that
  leaves rows with equal keys in their original order.
\<close>

fun insert_desc :: "(row \<Rightarrow> number) \<Rightarrow> row \<Rightarrow> row list \<Rightarrow> row list" where
  "insert_desc k x [] = [x]"
| "insert_desc k x (y # ys) =
     (if num_le (k y) (k x) then x # y # ys else y # insert_desc k x ys)"

definition stable_desc :: sorter where
  "stable_desc k xs = foldr (insert_desc k) xs []"

text \<open>
  \<open>df.melt(id_vars=id_var, value_vars=value_vars, var_name=var_name, value_name=value_name)\<close>:
  for each value column in turn, one row per row of the frame, holding the id cell, the
  name of the value column and the cell of the value column; the frame itself is not
  changed. A missing id or value column is a \<open>KeyError\<close>. pandas 2 raises a
  \<open>ValueError\<close> when \<open>value_name\<close> is already a column of the frame (pandas 1 only
  warned). pandas builds the result from a dictionary keyed by column name, so a call in
  which two of the three result columns have the same name does not give three columns;
  the program makes no such call and the model rejects it.
\<close>

definition melt :: "frame \<Rightarrow> string \<Rightarrow> string list \<Rightarrow> string \<Rightarrow> string \<Rightarrow> error + frame" where
  "melt f id_var value_vars var_name value_name =
     (case get_txt f id_var of Inl e \<Rightarrow> Inl e | Inr _ \<Rightarrow>
      case filter (\<lambda>v. v \<notin> set (num_columns f)) value_vars of
        m # ms \<Rightarrow> Inl (if m \<in> set (txt_columns f) then TypeError m else KeyError m)
      | [] \<Rightarrow>
        if has_column f value_name \<or> value_name = var_name \<or> var_name = id_var
        then Inl (ValueError value_name)
        else Inr \<lparr> txt_columns = [id_var, var_name], num_columns = [value_name],
                   rows = concat (map (\<lambda>v. map (\<lambda>r.
                            \<lparr> texts = [(id_var, txt_at r id_var), (var_name, Some v)],
                              nums = [(value_name, num_at r v)] \<rparr>) (rows f)) value_vars) \<rparr>)"

text \<open>\<open>s.map(d)\<close> with a dictionary: a value that is not a key becomes a missing value.\<close>

definition series_map :: "(string \<times> string) list \<Rightarrow> string option list \<Rightarrow> string option list" where
  "series_map d s = map (\<lambda>v. case v of None \<Rightarrow> None | Some x \<Rightarrow> map_of d x) s"

section \<open>DataFrame objects\<close>

text \<open>
  A DataFrame is a mutable object and \<open>df[c] = s\<close> changes it in place. The store holds
  the frames that exist; a reference is a position in the store. \<open>df.copy()\<close> and
  \<open>df.melt(...)\<close> make a new object. A computation takes the store and returns a result
  or the exception raised, and the store as it is then.
\<close>

type_synonym store = "frame list"

type_synonym 'a io = "store \<Rightarrow> (error + 'a) \<times> store"

definition ret :: "'a \<Rightarrow> 'a io" where
  "ret x = (\<lambda>h. (Inr x, h))"

definition lift :: "error + 'a \<Rightarrow> 'a io" where
  "lift r = (\<lambda>h. (r, h))"

definition io_bind :: "'a io \<Rightarrow> ('a \<Rightarrow> 'b io) \<Rightarrow> 'b io" where
  "io_bind m f = (\<lambda>h. case m h of (Inl e, h') \<Rightarrow> (Inl e, h') | (Inr x, h') \<Rightarrow> f x h')"

definition deref :: "nat \<Rightarrow> frame io" where
  "deref r = (\<lambda>h. if r < length h then (Inr (h ! r), h) else (Inl (BadRef r), h))"

definition alloc :: "frame \<Rightarrow> nat io" where
  "alloc f = (\<lambda>h. (Inr (length h), h @ [f]))"

definition update_at :: "nat \<Rightarrow> (frame \<Rightarrow> frame) \<Rightarrow> unit io" where
  "update_at r g = (\<lambda>h. if r < length h then (Inr (), h[r := g (h ! r)]) else (Inl (BadRef r), h))"

text \<open>\<open>df.copy()\<close>, \<open>df[c]\<close>, \<open>df[c] = s\<close>, \<open>df[c] = x\<close> for a number \<open>x\<close>, and \<open>df.melt(...)\<close>.\<close>

definition copy_df :: "nat \<Rightarrow> nat io" where
  "copy_df df = io_bind (deref df) alloc"

definition getitem_num :: "nat \<Rightarrow> string \<Rightarrow> series io" where
  "getitem_num df c = io_bind (deref df) (\<lambda>f. lift (get_num f c))"

definition getitem_txt :: "nat \<Rightarrow> string \<Rightarrow> string option list io" where
  "getitem_txt df c = io_bind (deref df) (\<lambda>f. lift (get_txt f c))"

definition setitem_num :: "nat \<Rightarrow> string \<Rightarrow> series \<Rightarrow> unit io" where
  "setitem_num df c s = update_at df (\<lambda>f. set_num f c s)"

definition setitem_scalar :: "nat \<Rightarrow> string \<Rightarrow> number \<Rightarrow> unit io" where
  "setitem_scalar df c x = update_at df (\<lambda>f. set_num f c (replicate (length (rows f)) x))"

definition setitem_txt :: "nat \<Rightarrow> string \<Rightarrow> string option list \<Rightarrow> unit io" where
  "setitem_txt df c s = update_at df (\<lambda>f. set_txt f c s)"

definition melt_df :: "nat \<Rightarrow> string \<Rightarrow> string list \<Rightarrow> string \<Rightarrow> string \<Rightarrow> nat io" where
  "melt_df df id_var value_vars var_name value_name =
     io_bind (deref df) (\<lambda>f. io_bind (lift (melt f id_var value_vars var_name value_name)) alloc)"

section \<open>The dashboard: derived columns of \<open>main\<close>\<close>

definition cnt_base :: string where
  "cnt_base = ''cnt_'' @ BASE_A"

definition cnt_new :: string where
  "cnt_new = ''cnt_'' @ NEW_A"

text \<open>
  Lines 491-493 of \<open>main\<close>:
  \<open>df["pct_change"] = ((df[cnt_new] - df[cnt_base]) / df[cnt_base]).where(df[cnt_base] != 0)\<close>.
\<close>

definition pct_change_series :: "series \<Rightarrow> series \<Rightarrow> series" where
  "pct_change_series base new =
     series_where (series_div (series_sub new base) base) (series_ne0 base)"

definition derive_pct_change :: "frame \<Rightarrow> error + frame" where
  "derive_pct_change df =
     (case get_num df cnt_new of Inl e \<Rightarrow> Inl e | Inr new \<Rightarrow>
      case get_num df cnt_base of Inl e \<Rightarrow> Inl e | Inr base \<Rightarrow>
        Inr (set_num df ''pct_change'' (pct_change_series base new)))"

text \<open>
  Line 495 of \<open>main\<close>: \<open>df_top25 = df.sort_values(cnt_new, ascending=False).head(25)\<close>,
  with the sort column and the number of rows as parameters.
\<close>

definition rank_top_n :: "sorter \<Rightarrow> string \<Rightarrow> nat \<Rightarrow> frame \<Rightarrow> error + frame" where
  "rank_top_n kind key_col n df =
     (case sort_values_desc kind key_col (\<lambda>x. x) df of Inl e \<Rightarrow> Inl e
      | Inr srt \<Rightarrow> Inr (head n srt))"

definition df_top25 :: "sorter \<Rightarrow> frame \<Rightarrow> error + frame" where
  "df_top25 kind df = rank_top_n kind cnt_new 25 df"

text \<open>
  Lines 506-511 of \<open>main\<close>:
  \<open>df.dropna(subset=["pct_change"]).assign(abs_change=lambda d: d["pct_change"].abs())
     .sort_values("abs_change", ascending=False).head(20)\<close>,
  with the number of rows as a parameter.
\<close>

definition rank_by_abs_change :: "sorter \<Rightarrow> nat \<Rightarrow> frame \<Rightarrow> error + frame" where
  "rank_by_abs_change kind n df =
     (case dropna ''pct_change'' df of Inl e \<Rightarrow> Inl e | Inr d \<Rightarrow>
      case get_num d ''pct_change'' of Inl e \<Rightarrow> Inl e | Inr s \<Rightarrow>
      case sort_values_desc kind ''abs_change'' (\<lambda>x. x) (set_num d ''abs_change'' (series_abs s)) of
        Inl e \<Rightarrow> Inl e
      | Inr srt \<Rightarrow> Inr (head n srt))"

definition df_change :: "sorter \<Rightarrow> frame \<Rightarrow> error + frame" where
  "df_change kind df = rank_by_abs_change kind 20 df"

text \<open>
  The comparison table of the scenario of the specification: Bachelor's Degree with
  counts 100 and 120, Certificate with counts 0 and 10.
\<close>

definition scenario_df :: frame where
  "scenario_df =
     \<lparr> txt_columns = [''field_value''], num_columns = [cnt_base, cnt_new],
       rows = [\<lparr> texts = [(''field_value'', Some (''Bachelor'' @ [CHR 0x27] @ ''s Degree''))],
                 nums = [(cnt_base, Fin 100), (cnt_new, Fin 120)] \<rparr>,
               \<lparr> texts = [(''field_value'', Some ''Certificate'')],
                 nums = [(cnt_base, Fin 0), (cnt_new, Fin 10)] \<rparr>] \<rparr>"

text \<open>
  A table of two rows with the same new-version count, and a table of twenty rows
  \<open>A\<close>, ..., \<open>T\<close> that all have the same new-version count.
\<close>

definition tie_df :: frame where
  "tie_df =
     \<lparr> txt_columns = [''field_value''], num_columns = [cnt_base, cnt_new],
       rows = [\<lparr> texts = [(''field_value'', Some ''Associate'')],
                 nums = [(cnt_base, Fin 3), (cnt_new, Fin 5)] \<rparr>,
               \<lparr> texts = [(''field_value'', Some ''Certificate'')],
                 nums = [(cnt_base, Fin 4), (cnt_new, Fin 5)] \<rparr>] \<rparr>"

text \<open>The category labels of a frame, in row order.\<close>

definition categories :: "frame \<Rightarrow> string option list" where
  "categories f = map (\<lambda>r. txt_at r ''field_value'') (rows f)"

text \<open>The category label and the percent change of a row.\<close>

definition change_of :: "row \<Rightarrow> string option \<times> number" where
  "change_of r = (txt_at r ''field_value'', num_at r ''pct_change'')"

definition has_change :: "row \<Rightarrow> bool" where
  "has_change r = (\<not> isna (num_at r ''pct_change''))"

definition abs_change_ge :: "row \<Rightarrow> row \<Rightarrow> bool" where
  "abs_change_ge a b = num_le (num_abs (num_at b ''pct_change'')) (num_abs (num_at a ''pct_change''))"

text \<open>A row with the \<open>abs_change\<close> cell that \<open>assign\<close> gives it.\<close>

definition with_abs :: "row \<Rightarrow> row" where
  "with_abs r = \<lparr> texts = AList.delete ''abs_change'' (texts r),
                  nums = AList.update ''abs_change'' (num_abs (num_at r ''pct_change'')) (nums r) \<rparr>"

text \<open>The scenario table with its \<open>pct_change\<close> column.\<close>

definition scenario_derived :: frame where
  "scenario_derived = (case derive_pct_change scenario_df of Inr d \<Rightarrow> d | Inl e \<Rightarrow> scenario_df)"

section \<open>The dashboard: chart helpers\<close>

definition NULL_LABEL :: string where
  "NULL_LABEL = ''<NULL>''"

text \<open>
  \<open>_prepare\<close>: on a Series, \<open>val.fillna(NULL_LABEL).astype(str)\<close>; on a single value,
  \<open>NULL_LABEL if pd.isna(val) else str(val)\<close>.
\<close>

definition prepare :: "string option \<Rightarrow> string" where
  "prepare val = (case val of None \<Rightarrow> NULL_LABEL | Some s \<Rightarrow> s)"

definition prepare_series :: "string option list \<Rightarrow> string option list" where
  "prepare_series val = map (\<lambda>v. Some (prepare v)) val"

text \<open>\<open>_melt\<close> (lines 192-200).\<close>

definition melt_helper :: "nat \<Rightarrow> string list \<Rightarrow> string \<Rightarrow> nat io" where
  "melt_helper df value_cols value_name =
     io_bind (copy_df df) (\<lambda>df_disp.
     io_bind (getitem_txt df_disp ''field_value'') (\<lambda>fv.
     io_bind (setitem_txt df_disp ''field_value'' (prepare_series fv)) (\<lambda>_.
     melt_df df_disp ''field_value'' value_cols ''version'' value_name)))"

definition DEGREE_ORDER :: "string list" where
  "DEGREE_ORDER =
     [''High School'', ''Certificate'', ''Associate'', ''Bachelor'' @ [CHR 0x27] @ ''s Degree'',
      ''Master'' @ [CHR 0x27] @ ''s Degree'', ''Doctorate'']"

text \<open>\<open>_sort_by_new\<close> (lines 202-211); it only reads the frame.\<close>

definition sort_by_new :: "sorter \<Rightarrow> frame \<Rightarrow> string \<Rightarrow> error + string list" where
  "sort_by_new kind df new_col =
     (if has_column df ''cnt_ipeds'' then
        (case get_txt df ''field_value'' of Inl e \<Rightarrow> Inl e | Inr fv \<Rightarrow>
           let seen = map prepare fv
           in Inr (filter (\<lambda>d. d \<in> set seen) DEGREE_ORDER @ filter (\<lambda>v. v \<notin> set DEGREE_ORDER) seen))
      else
        (case sort_values_desc kind new_col (\<lambda>x. x) df of Inl e \<Rightarrow> Inl e | Inr srt \<Rightarrow>
         case get_txt srt ''field_value'' of Inl e \<Rightarrow> Inl e | Inr fv \<Rightarrow> Inr (map prepare fv)))"

text \<open>
  The chart functions end by handing a frame and a category order to the charting
  library; the model returns the two. Lines 214-219 and 253-258: the count columns.
\<close>

definition value_cols_of :: "frame \<Rightarrow> string list" where
  "value_cols_of df = [cnt_base, cnt_new] @ (if has_column df ''cnt_ipeds'' then [''cnt_ipeds''] else [])"

definition count_version_map :: "(string \<times> string) list" where
  "count_version_map = [(cnt_base, BASE_VERSION), (cnt_new, NEW_VERSION), (''cnt_ipeds'', ''ipeds'')]"

text \<open>\<open>chart_counts\<close> (lines 213-250).\<close>

definition chart_counts :: "sorter \<Rightarrow> nat \<Rightarrow> (nat \<times> string list) io" where
  "chart_counts kind df =
     io_bind (deref df) (\<lambda>f.
     io_bind (lift (sort_by_new kind f cnt_new)) (\<lambda>order.
     io_bind (melt_helper df (value_cols_of f) ''count'') (\<lambda>long.
     io_bind (getitem_txt long ''version'') (\<lambda>v.
     io_bind (setitem_txt long ''version'' (series_map count_version_map v)) (\<lambda>_.
     ret (long, order))))))"

text \<open>
  \<open>chart_percentages\<close> (lines 252-296). \<open>pct_name\<close> is
  \<open>f"pct_{col.replace('cnt_', '')}"\<close>. Line 260 is \<open>totals_of\<close>, the loop of lines 262-264
  is \<open>pct_loop\<close>, and lines 260-264 together are \<open>compute_percentages\<close>, which returns
  \<open>df_pct\<close>. In line 264 the conditional expression yields a Series or the number 0, and
  the assignment gives the number to every row.
\<close>

definition pct_name :: "string \<Rightarrow> string" where
  "pct_name col = ''pct_'' @ replace col ''cnt_'' []"

fun totals_of :: "nat \<Rightarrow> string list \<Rightarrow> (string \<times> number) list io" where
  "totals_of df [] = ret []"
| "totals_of df (col # cols) =
     io_bind (getitem_num df col) (\<lambda>s.
     io_bind (totals_of df cols) (\<lambda>rest. ret ((col, series_sum s) # rest)))"

definition lookup_total :: "(string \<times> number) list \<Rightarrow> string \<Rightarrow> error + number" where
  "lookup_total totals col = (case map_of totals col of None \<Rightarrow> Inl (KeyError col) | Some t \<Rightarrow> Inr t)"

fun pct_loop :: "nat \<Rightarrow> nat \<Rightarrow> (string \<times> number) list \<Rightarrow> string list \<Rightarrow> unit io" where
  "pct_loop df df_pct totals [] = ret ()"
| "pct_loop df df_pct totals (col # cols) =
     io_bind (lift (lookup_total totals col)) (\<lambda>t.
     io_bind (if truthy t
              then io_bind (getitem_num df col) (\<lambda>s. setitem_num df_pct (pct_name col) (series_div_scalar s t))
              else setitem_scalar df_pct (pct_name col) (Fin 0)) (\<lambda>_.
     pct_loop df df_pct totals cols))"

definition compute_percentages :: "nat \<Rightarrow> string list \<Rightarrow> nat io" where
  "compute_percentages df value_cols =
     io_bind (totals_of df value_cols) (\<lambda>totals.
     io_bind (copy_df df) (\<lambda>df_pct.
     io_bind (pct_loop df df_pct totals value_cols) (\<lambda>_.
     ret df_pct)))"

definition pct_version_map :: "(string \<times> string) list" where
  "pct_version_map =
     [(''pct_'' @ BASE_A, BASE_VERSION), (''pct_'' @ NEW_A, NEW_VERSION), (''pct_ipeds'', ''ipeds'')]"

definition chart_percentages :: "sorter \<Rightarrow> nat \<Rightarrow> (nat \<times> string list) io" where
  "chart_percentages kind df =
     io_bind (deref df) (\<lambda>f.
     io_bind (compute_percentages df (value_cols_of f)) (\<lambda>df_pct.
     io_bind (deref df) (\<lambda>f'.
     io_bind (lift (sort_by_new kind f' cnt_new)) (\<lambda>order.
     io_bind (melt_helper df_pct (map pct_name (value_cols_of f)) ''pct'') (\<lambda>long.
     io_bind (getitem_txt long ''version'') (\<lambda>v.
     io_bind (setitem_txt long ''version'' (series_map pct_version_map v)) (\<lambda>_.
     ret (long, order))))))))"

text \<open>\<open>chart_pct_change\<close> (lines 298-327): the chart gets \<open>df_disp\<close> and the order.\<close>

definition chart_pct_change :: "sorter \<Rightarrow> nat \<Rightarrow> (nat \<times> string option list) io" where
  "chart_pct_change kind df =
     io_bind (copy_df df) (\<lambda>df_disp.
     io_bind (getitem_txt df_disp ''field_value'') (\<lambda>fv.
     io_bind (setitem_txt df_disp ''field_value'' (prepare_series fv)) (\<lambda>_.
     io_bind (deref df_disp) (\<lambda>f.
     io_bind (lift (sort_values_desc kind ''pct_change'' num_abs f)) (\<lambda>srt.
     io_bind (lift (get_txt srt ''field_value'')) (\<lambda>order.
     ret (df_disp, order)))))))"

text \<open>\<open>chart_employer_industry\<close> (lines 377-420).\<close>

definition perc_base :: string where
  "perc_base = ''perc_'' @ BASE_A"

definition perc_new :: string where
  "perc_new = ''perc_'' @ NEW_A"

definition col_to_version :: "(string \<times> string) list" where
  "col_to_version = [(''perc_bls'', ''BLS 2023''), (perc_base, BASE_VERSION), (perc_new, NEW_VERSION)]"

definition chart_employer_industry :: "sorter \<Rightarrow> nat \<Rightarrow> (nat \<times> string list) io" where
  "chart_employer_industry kind df =
     io_bind (deref df) (\<lambda>f.
     io_bind (lift (sort_values_desc kind perc_new (\<lambda>x. x) f)) (\<lambda>srt.
     io_bind (lift (get_txt srt ''industry'')) (\<lambda>ind.
     io_bind (melt_df df ''industry'' [''perc_bls'', perc_base, perc_new] ''source'' ''pct'') (\<lambda>long.
     io_bind (getitem_txt long ''source'') (\<lambda>src.
     io_bind (setitem_txt long ''version'' (series_map col_to_version src)) (\<lambda>_.
     ret (long, map prepare ind)))))))"

text \<open>A comparison table with a missing category.\<close>

definition null_df :: frame where
  "null_df =
     \<lparr> txt_columns = [''field_value''], num_columns = [cnt_base, cnt_new],
       rows = [\<lparr> texts = [(''field_value'', Some ''Associate'')],
                 nums = [(cnt_base, Fin 3), (cnt_new, Fin 5)] \<rparr>,
               \<lparr> texts = [(''field_value'', None)],
                 nums = [(cnt_base, Fin 1), (cnt_new, Fin 0)] \<rparr>] \<rparr>"

text \<open>
  The frame condition used for the chart functions: run in a store that holds at least
  \<open>n\<close> objects, the computation leaves the first \<open>n\<close> objects as they are, whether it
  returns or raises, and a returned value satisfies \<open>Q\<close>.
\<close>

definition preserves :: "nat \<Rightarrow> ('a \<Rightarrow> bool) \<Rightarrow> 'a io \<Rightarrow> bool" where
  "preserves n Q m =
     (\<forall>h. n \<le> length h \<longrightarrow>
        n \<le> length (snd (m h)) \<and> take n (snd (m h)) = take n h
        \<and> (case fst (m h) of Inr x \<Rightarrow> Q x | Inl e \<Rightarrow> True))"

text \<open>The row that \<open>_melt\<close> emits for a row of the table and a value column.\<close>

definition long_row :: "string \<Rightarrow> row \<Rightarrow> string \<Rightarrow> row" where
  "long_row value_name r v =
     \<lparr> texts = [(''field_value'', Some (prepare (txt_at r ''field_value''))), (''version'', Some v)],
       nums = [(value_name, num_at r v)] \<rparr>"

text \<open>An industry table (\<open>EMPLOYERS_INDUSTRY_BLS\<close>) with one row whose industry is \<open>NULL\<close>.\<close>

definition bls_df :: frame where
  "bls_df =
     \<lparr> txt_columns = [''industry''], num_columns = [''perc_bls'', perc_base, perc_new],
       rows = [\<lparr> texts = [(''industry'', Some ''Retail Trade'')],
                 nums = [(''perc_bls'', Fin (1 / 2)), (perc_base, Fin (3 / 5)), (perc_new, Fin (7 / 10))] \<rparr>,
               \<lparr> texts = [(''industry'', None)],
                 nums = [(''perc_bls'', Fin (1 / 2)), (perc_base, Fin (2 / 5)), (perc_new, Fin (3 / 10))] \<rparr>] \<rparr>"

text \<open>
  The cells of a numeric column, in row order, and the frame \<open>df_pct\<close> after one round of
  the loop of lines 262-264.
\<close>

definition column_of :: "frame \<Rightarrow> string \<Rightarrow> series" where
  "column_of f c = map (\<lambda>r. num_at r c) (rows f)"

definition pct_step :: "frame \<Rightarrow> frame \<Rightarrow> string \<Rightarrow> frame" where
  "pct_step df df_pct col =
     set_num df_pct (pct_name col)
       (if truthy (series_sum (column_of df col))
        then series_div_scalar (column_of df col) (series_sum (column_of df col))
        else replicate (length (rows df_pct)) (Fin 0))"

text \<open>A count is a finite number or missing: a count column holds no infinity.\<close>

definition is_count :: "number \<Rightarrow> bool" where
  "is_count x = (x \<noteq> PosInf \<and> x \<noteq> NegInf)"

text \<open>A table whose base-version counts are all zero.\<close>

definition zero_df :: frame where
  "zero_df =
     \<lparr> txt_columns = [''field_value''], num_columns = [cnt_base, cnt_new],
       rows = [\<lparr> texts = [(''field_value'', Some ''Associate'')],
                 nums = [(cnt_base, Fin 0), (cnt_new, Fin 1)] \<rparr>,
               \<lparr> texts = [(''field_value'', Some ''Certificate'')],
                 nums = [(cnt_base, Fin 0), (cnt_new, Fin 3)] \<rparr>] \<rparr>"

section \<open>Rounding to float64\<close>

text \<open>
  Where the model holds the exact quotient of two numbers, the program holds a float64:
  pandas converts the operands to float64, which is exact for integers below \<open>2 ^ 53\<close>,
  and divides once, rounding the quotient to the nearest float64, ties to even.
  \<open>round53\<close> is that rounding for the normal range of float64 (a significand of 53 bits;
  overflow and subnormal numbers do not arise for quotients of counts below \<open>2 ^ 53\<close>).
  \<open>float_sum\<close> adds float64 numbers from left to right, rounding after each addition.
\<close>

definition pow2 :: "int \<Rightarrow> rat" where
  "pow2 e = (if 0 \<le> e then 2 ^ nat e else 1 / 2 ^ nat (- e))"

text \<open>The exponent \<open>e\<close> with \<open>2 ^ e \<le> m < 2 ^ (e + 1)\<close>, for a positive \<open>m\<close>.\<close>

definition ilog2 :: "rat \<Rightarrow> int" where
  "ilog2 m = (case quotient_of m of (p, q) \<Rightarrow>
                let d = bitlen p - bitlen q in if pow2 d \<le> m then d else d - 1)"

definition round_half_even :: "rat \<Rightarrow> int" where
  "round_half_even q =
     (let f = \<lfloor>q\<rfloor>; d = q - of_int f
      in if d < 1 / 2 then f else if 1 / 2 < d then f + 1 else if even f then f else f + 1)"

definition round53 :: "rat \<Rightarrow> rat" where
  "round53 x =
     (if x = 0 then 0
      else let u = pow2 (ilog2 \<bar>x\<bar> - 52) in of_int (round_half_even (x / u)) * u)"

definition float64_of :: "number \<Rightarrow> number" where
  "float64_of x = (case x of Fin a \<Rightarrow> Fin (round53 a) | _ \<Rightarrow> x)"

definition float_sum :: "rat list \<Rightarrow> rat" where
  "float_sum xs = foldl (\<lambda>s x. round53 (s + x)) 0 xs"

text \<open>The finite value of a cell, zero for a missing one.\<close>

definition value_of :: "number \<Rightarrow> rat" where
  "value_of x = (case x of Fin a \<Rightarrow> a | _ \<Rightarrow> 0)"

text \<open>A count as the warehouse gives it: a natural number, or missing.\<close>

definition natural_count :: "number \<Rightarrow> bool" where
  "natural_count x = (case x of Fin a \<Rightarrow> 0 \<le> a \<and> of_int \<lfloor>a\<rfloor> = a | NaN \<Rightarrow> True | _ \<Rightarrow> False)"

text \<open>A table of six rows whose base-version counts are all 1.\<close>

definition six_df :: frame where
  "six_df =
     \<lparr> txt_columns = [''field_value''], num_columns = [cnt_base, cnt_new],
       rows = map (\<lambda>c. \<lparr> texts = [(''field_value'', Some [c])],
                           nums = [(cnt_base, Fin 1), (cnt_new, Fin 2)] \<rparr>)
                ''ABCDEF'' \<rparr>"

section \<open>The table generator\<close>

text \<open>
  The two rerun scripts import their configuration, the SQL builders, the table-name
  builders and \<open>execute_ddl\<close> from the module \<open>postings_release_temp_tables\<close>, which is not
  among the sources: they are the fields of \<open>generator\<close>, parameters of the model. The
  builders are functions of their arguments. \<open>execute_ddl\<close> acts on the warehouse \<open>'w\<close> and
  either returns (\<open>None\<close>) or raises an \<open>Exception\<close> with a message (\<open>Some e\<close>).
\<close>

record field_map =
  v1_expr :: string
  v2_expr :: string
  lc_expr :: string
  v1_from :: "string option"
  v2_from :: "string option"
  lc_from :: "string option"

record topic_meta =
  topic_fields :: "(string \<times> field_map) list"
  exclude_values_ilike :: "string list option"
  extra_where :: "string option"

type_synonym sql_builder =
  "string \<Rightarrow> string \<Rightarrow> string \<Rightarrow> string \<Rightarrow> string \<Rightarrow> string \<Rightarrow> string list \<Rightarrow> string option \<Rightarrow> string"

record 'w generator =
  V1_FROM :: string
  V2_FROM :: string
  LC_FROM :: string
  make_kpi_name :: "string \<Rightarrow> string \<Rightarrow> string"
  make_comp_name :: "string \<Rightarrow> string \<Rightarrow> string"
  make_comp_lc_name :: "string \<Rightarrow> string \<Rightarrow> string"
  sql_generic_kpis :: sql_builder
  sql_generic_compare :: sql_builder
  sql_generic_compare_lc :: sql_builder
  execute_ddl :: "string \<Rightarrow> 'w \<Rightarrow> string option \<times> 'w"

text \<open>What a script prints, line by line.\<close>

datatype event =
  Rebuilding
  | Created string
  | Failed string string
  | Summary nat
  | Done_table string

text \<open>\<open>d.get(key, default)\<close>.\<close>

definition get_or :: "'a option \<Rightarrow> 'a \<Rightarrow> 'a" where
  "get_or v d = (case v of None \<Rightarrow> d | Some x \<Rightarrow> x)"

definition create_statement :: "string \<Rightarrow> string \<Rightarrow> string" where
  "create_statement name sql = ''CREATE OR REPLACE TABLE '' @ name @ '' AS'' @ [CHR 0x0A] @ sql"

text \<open>
  One \<open>try\<close> block of \<open>postings_employer_tables_rerun.main\<close> (lines 38-43, 51-56, 64-69):
  the state is the count \<open>total\<close> (here \<open>created\<close>), the warehouse and the lines printed so far.
\<close>

definition try_create :: "'w generator \<Rightarrow> string \<Rightarrow> string \<Rightarrow> nat \<times> 'w \<times> event list \<Rightarrow> nat \<times> 'w \<times> event list" where
  "try_create g name sql st =
     (case st of (created, w, out) \<Rightarrow>
        (case execute_ddl g (create_statement name sql) w of
           (None, w') \<Rightarrow> (created + 1, w', out @ [Created name])
         | (Some e, w') \<Rightarrow> (created, w', out @ [Failed name e])))"

text \<open>The body of the loop over the fields (lines 28-69).\<close>

definition employer_field :: "'w generator \<Rightarrow> string list \<Rightarrow> string option \<Rightarrow> string \<times> field_map \<Rightarrow> nat \<times> 'w \<times> event list \<Rightarrow> nat \<times> 'w \<times> event list" where
  "employer_field g exclude_ilike extra item st =
     (case item of (field_name, fmap) \<Rightarrow>
        let v1 = get_or (v1_from fmap) (V1_FROM g);
            v2 = get_or (v2_from fmap) (V2_FROM g);
            lc = get_or (lc_from fmap) (LC_FROM g);
            kpi_name = make_kpi_name g ''employers'' field_name;
            kpi_sql = sql_generic_kpis g (v1_expr fmap) (v2_expr fmap) (lc_expr fmap) v1 v2 lc exclude_ilike extra;
            st1 = try_create g kpi_name kpi_sql st;
            comp_name = make_comp_name g ''employers'' field_name;
            comp_sql = sql_generic_compare g (v1_expr fmap) (v2_expr fmap) (lc_expr fmap) v1 v2 lc exclude_ilike extra;
            st2 = try_create g comp_name comp_sql st1;
            complc_name = make_comp_lc_name g ''employers'' field_name;
            complc_sql = sql_generic_compare_lc g (v1_expr fmap) (v2_expr fmap) (lc_expr fmap) v1 v2 lc exclude_ilike extra
        in try_create g complc_name complc_sql st2)"

text \<open>
  \<open>postings_employer_tables_rerun.main\<close>, from the first \<open>print\<close> to the last: the result
  is the warehouse and the lines printed. Opening and closing the connection are part of
  the warehouse and are not modelled.
\<close>

definition employer_main :: "'w generator \<Rightarrow> topic_meta \<Rightarrow> 'w \<Rightarrow> 'w \<times> event list" where
  "employer_main g meta w =
     (let exclude_ilike = get_or (exclude_values_ilike meta) [];
          extra = extra_where meta
      in case fold (employer_field g exclude_ilike extra) (topic_fields meta) (0, w, [Rebuilding]) of
           (created, w', out) \<Rightarrow> (w', out @ [Summary created]))"

text \<open>
  The education rerun script (\<open>edu tables rerun\<close>, lines 16-30): one statement, outside any
  \<open>try\<close>. The call of \<open>sql_generic_kpis\<close> passes no \<open>extra_where\<close>. When \<open>execute_ddl\<close>
  raises, the exception ends the script before it prints.
\<close>

definition edu_table :: "'w generator \<Rightarrow> string" where
  "edu_table g = make_kpi_name g ''education'' ''MIN_REQUIRED_DEGREE''"

definition edu_statement :: "'w generator \<Rightarrow> topic_meta \<Rightarrow> field_map \<Rightarrow> string" where
  "edu_statement g meta fmap =
     (let exclude_ilike = get_or (exclude_values_ilike meta) [];
          kpi_sql = sql_generic_kpis g (v1_expr fmap) (v2_expr fmap) (lc_expr fmap)
                      (get_or (v1_from fmap) (V1_FROM g)) (get_or (v2_from fmap) (V2_FROM g))
                      (get_or (lc_from fmap) (LC_FROM g)) exclude_ilike None
      in create_statement (edu_table g) kpi_sql)"

definition edu_rerun :: "'w generator \<Rightarrow> topic_meta \<Rightarrow> field_map \<Rightarrow> 'w \<Rightarrow> (string + unit) \<times> 'w \<times> event list" where
  "edu_rerun g meta fmap w =
     (case execute_ddl g (edu_statement g meta fmap) w of
        (None, w') \<Rightarrow> (Inr (), w', [Done_table (edu_table g)])
      | (Some e, w') \<Rightarrow> (Inl e, w', []))"

text \<open>The names of the tables that the batch run of a topic is to create, in order.\<close>

definition employer_tables :: "'w generator \<Rightarrow> topic_meta \<Rightarrow> string list" where
  "employer_tables g meta =
     concat (map (\<lambda>item. [make_kpi_name g ''employers'' (fst item),
                           make_comp_name g ''employers'' (fst item),
                           make_comp_lc_name g ''employers'' (fst item)]) (topic_fields meta))"

text \<open>
  What the batch run is to do: the statements of a topic in the order of the script, each
  with the table name that its log line prints; for every field the KPI table, the
  comparison table and the life-cycle comparison table.
\<close>

definition field_statements :: "'w generator \<Rightarrow> string list \<Rightarrow> string option \<Rightarrow> string \<times> field_map \<Rightarrow> (string \<times> string) list" where
  "field_statements g exclude_ilike extra item =
     (case item of (field_name, fmap) \<Rightarrow>
        let v1 = get_or (v1_from fmap) (V1_FROM g);
            v2 = get_or (v2_from fmap) (V2_FROM g);
            lc = get_or (lc_from fmap) (LC_FROM g);
            kpi_name = make_kpi_name g ''employers'' field_name;
            comp_name = make_comp_name g ''employers'' field_name;
            complc_name = make_comp_lc_name g ''employers'' field_name
        in [(kpi_name, create_statement kpi_name
               (sql_generic_kpis g (v1_expr fmap) (v2_expr fmap) (lc_expr fmap) v1 v2 lc exclude_ilike extra)),
            (comp_name, create_statement comp_name
               (sql_generic_compare g (v1_expr fmap) (v2_expr fmap) (lc_expr fmap) v1 v2 lc exclude_ilike extra)),
            (complc_name, create_statement complc_name
               (sql_generic_compare_lc g (v1_expr fmap) (v2_expr fmap) (lc_expr fmap) v1 v2 lc exclude_ilike extra))])"

definition employer_statements :: "'w generator \<Rightarrow> topic_meta \<Rightarrow> (string \<times> string) list" where
  "employer_statements g meta =
     concat (map (field_statements g (get_or (exclude_values_ilike meta) []) (extra_where meta))
       (topic_fields meta))"

text \<open>
  Every statement is handed to \<open>execute_ddl\<close>, one after the other, each on the warehouse
  that the statement before it left, whether that one returned or raised: the outcomes
  are the table names with what \<open>execute_ddl\<close> did, and the last warehouse.
\<close>

fun run_statements :: "'w generator \<Rightarrow> (string \<times> string) list \<Rightarrow> 'w \<Rightarrow> (string \<times> string option) list \<times> 'w" where
  "run_statements g [] w = ([], w)"
| "run_statements g ((name, stmt) # rest) w =
     (case execute_ddl g stmt w of
        (r, w') \<Rightarrow> (case run_statements g rest w' of (rs, w'') \<Rightarrow> ((name, r) # rs, w'')))"

text \<open>The warehouse after the first \<open>i\<close> statements.\<close>

definition warehouse_after :: "'w generator \<Rightarrow> (string \<times> string) list \<Rightarrow> 'w \<Rightarrow> nat \<Rightarrow> 'w" where
  "warehouse_after g stmts w i = snd (run_statements g (take i stmts) w)"

text \<open>The line of the log for an outcome, and the outcomes that count as created.\<close>

fun line_of :: "string \<times> string option \<Rightarrow> event" where
  "line_of (name, None) = Created name"
| "line_of (name, Some e) = Failed name e"

definition returned :: "string \<times> string option \<Rightarrow> bool" where
  "returned r = (snd r = None)"

text \<open>
  An example generator: names are prefix, topic and field; the SQL is the first
  expression; the warehouse is the list of statements that ran; a statement fails when
  its table name mentions \<open>NAICS\<close>.
\<close>

definition mentions :: "string \<Rightarrow> string \<Rightarrow> bool" where
  "mentions s w = (\<exists>i \<in> set [0..<Suc (length s)]. prefix w (drop i s))"

definition test_generator :: "string list generator" where
  "test_generator =
     \<lparr> V1_FROM = ''v1'', V2_FROM = ''v2'', LC_FROM = ''lc'',
       make_kpi_name = (\<lambda>t f. ''KPI_'' @ t @ ''_'' @ f),
       make_comp_name = (\<lambda>t f. ''COMP_'' @ t @ ''_'' @ f),
       make_comp_lc_name = (\<lambda>t f. ''COMPLC_'' @ t @ ''_'' @ f),
       sql_generic_kpis = (\<lambda>e1 e2 e3 f1 f2 f3 ex wh. e1),
       sql_generic_compare = (\<lambda>e1 e2 e3 f1 f2 f3 ex wh. e1),
       sql_generic_compare_lc = (\<lambda>e1 e2 e3 f1 f2 f3 ex wh. e1),
       execute_ddl = (\<lambda>stmt w. if mentions stmt ''NAICS'' then (Some ''missing source table'', w)
                               else (None, w @ [stmt])) \<rparr>"

definition test_field :: field_map where
  "test_field = \<lparr> v1_expr = ''SELECT 1'', v2_expr = ''SELECT 2'', lc_expr = ''SELECT 3'',
                   v1_from = None, v2_from = Some ''other'', lc_from = None \<rparr>"

definition test_meta :: topic_meta where
  "test_meta = \<lparr> topic_fields = [(''BGI_NAICS2_NAME'', test_field), (''BGI_COMPANY_NAME'', test_field)],
                  exclude_values_ilike = None, extra_where = None \<rparr>"

text \<open>A generator whose every statement fails.\<close>

definition failing_generator :: "string list generator" where
  "failing_generator = test_generator \<lparr> execute_ddl := (\<lambda>stmt w. (Some ''permission denied'', w)) \<rparr>"

section \<open>Verified properties\<close>

subsection \<open>Table names\<close>

lemma replace_from_single:
  "replace_from [a] new s = concat (map (\<lambda>c. if c = a then new else [c]) s)"
  by (induction s) auto

lemma replace_single:
  "replace s [a] new = concat (map (\<lambda>c. if c = a then new else [c]) s)"
  by (simp add: replace_def replace_from_single)

lemma replace_char_char:
  "replace s [a] [b] = map (\<lambda>c. if c = a then b else c) s"
  by (induction s) (simp_all add: replace_single)

lemma replace_char_empty:
  "replace s [a] [] = filter (\<lambda>c. c \<noteq> a) s"
  by (induction s) (simp_all add: replace_single)

lemma clean_name_chars:
  "clean_name str_upper s =
     filter (\<lambda>c. c \<noteq> CHR 0x27)
       (map (\<lambda>c. if c = CHR ''-'' then CHR ''_'' else c)
         (map (\<lambda>c. if c = CHR '' '' then CHR ''_'' else c) (str_upper s)))"
  by (simp add: clean_name_def replace_char_char replace_char_empty)

lemma upper_char_not_lower: "\<not> is_lower_ascii (upper_char c)"
proof -
  have "(of_char c :: nat) - 32 < 256"
    using nat_of_char_less_256 [of c] by linarith
  then have "((of_char c :: nat) - 32) mod 256 = of_char c - 32"
    by (rule mod_less)
  then show ?thesis
    by (auto simp add: is_lower_ascii_def upper_char_def Let_def)
qed

lemma underscore_not_lower: "\<not> is_lower_ascii (CHR ''_'')"
  by (simp add: is_lower_ascii_def)

lemma clean_name_ascii:
  "upper_on_ascii str_upper \<Longrightarrow> list_all is_ascii s \<Longrightarrow>
   clean_name str_upper s = clean_name upper s"
  by (simp add: clean_name_def upper_on_ascii_def)

lemma clean_name_no_lower: "filter is_lower_ascii (clean_name upper s) = []"
  by (auto simp add: clean_name_chars upper_def filter_empty_conv upper_char_not_lower
        underscore_not_lower)

lemma clean_name_no_special:
  "CHR '' '' \<notin> set (clean_name str_upper s)" "CHR ''-'' \<notin> set (clean_name str_upper s)"
  "CHR 0x27 \<notin> set (clean_name str_upper s)"
  by (auto simp add: clean_name_chars)

lemma upper_on_ascii_upper: "upper_on_ascii upper"
  by (simp add: upper_on_ascii_def)

text \<open>
  Claim C2. Whatever \<open>str.upper\<close> does outside ASCII, the table-name builders are
  functions of their three arguments: the name is the fixed prefix (\<open>KPI_\<close> or \<open>COMP_\<close>)
  followed by the three cleaned inputs joined by underscores, where cleaning upper-cases
  the input, turns every space and hyphen into an underscore and drops every apostrophe.
  The name therefore holds no space, no hyphen and no apostrophe. For ASCII inputs the
  upper-casing is that of the letters a-z and the name holds no lower-case letter; the
  KPI name of topic "employers", field "BGI Company Name", country "United States" is
  \<open>KPI_EMPLOYERS_BGI_COMPANY_NAME_UNITED_STATES\<close>.
\<close>

theorem table_names_normalized:
  "make_kpi_table_name str_upper topic field country =
     ''KPI_'' @ clean_name str_upper topic @ ''_'' @ clean_name str_upper field
       @ ''_'' @ clean_name str_upper country
   \<and> make_comparison_table_name str_upper topic field country =
     ''COMP_'' @ clean_name str_upper topic @ ''_'' @ clean_name str_upper field
       @ ''_'' @ clean_name str_upper country
   \<and> clean_name str_upper s =
       filter (\<lambda>c. c \<noteq> CHR 0x27)
         (map (\<lambda>c. if c = CHR ''-'' then CHR ''_'' else c)
           (map (\<lambda>c. if c = CHR '' '' then CHR ''_'' else c) (str_upper s)))
   \<and> CHR '' '' \<notin> set (make_kpi_table_name str_upper topic field country)
   \<and> CHR ''-'' \<notin> set (make_kpi_table_name str_upper topic field country)
   \<and> CHR 0x27 \<notin> set (make_kpi_table_name str_upper topic field country)
   \<and> CHR '' '' \<notin> set (make_comparison_table_name str_upper topic field country)
   \<and> CHR ''-'' \<notin> set (make_comparison_table_name str_upper topic field country)
   \<and> CHR 0x27 \<notin> set (make_comparison_table_name str_upper topic field country)
   \<and> (upper_on_ascii str_upper \<longrightarrow>
        make_kpi_table_name str_upper ''employers'' ''BGI Company Name'' ''United States'' =
          ''KPI_EMPLOYERS_BGI_COMPANY_NAME_UNITED_STATES''
        \<and> (list_all is_ascii topic \<and> list_all is_ascii field \<and> list_all is_ascii country \<longrightarrow>
             make_kpi_table_name str_upper topic field country =
               make_kpi_table_name upper topic field country
           \<and> make_comparison_table_name str_upper topic field country =
               make_comparison_table_name upper topic field country
           \<and> filter is_lower_ascii (make_kpi_table_name str_upper topic field country) = []
           \<and> filter is_lower_ascii (make_comparison_table_name str_upper topic field country) = []))"
proof -
  have sp: "CHR '' '' \<notin> set (make_kpi_table_name str_upper topic field country)"
     "CHR ''-'' \<notin> set (make_kpi_table_name str_upper topic field country)"
     "CHR 0x27 \<notin> set (make_kpi_table_name str_upper topic field country)"
     "CHR '' '' \<notin> set (make_comparison_table_name str_upper topic field country)"
     "CHR ''-'' \<notin> set (make_comparison_table_name str_upper topic field country)"
     "CHR 0x27 \<notin> set (make_comparison_table_name str_upper topic field country)"
    by (simp_all add: make_kpi_table_name_def make_comparison_table_name_def clean_name_no_special)
  have ex: "make_kpi_table_name str_upper ''employers'' ''BGI Company Name'' ''United States'' =
          ''KPI_EMPLOYERS_BGI_COMPANY_NAME_UNITED_STATES''" if u: "upper_on_ascii str_upper"
  proof -
    have a: "list_all is_ascii ''employers''" "list_all is_ascii ''BGI Company Name''"
      "list_all is_ascii ''United States''"
      by code_simp+
    have "make_kpi_table_name upper ''employers'' ''BGI Company Name'' ''United States'' =
          ''KPI_EMPLOYERS_BGI_COMPANY_NAME_UNITED_STATES''"
      by code_simp
    then show ?thesis
      by (simp only: make_kpi_table_name_def clean_name_ascii [OF u a(1)]
            clean_name_ascii [OF u a(2)] clean_name_ascii [OF u a(3)])
  qed
  have asc: "make_kpi_table_name str_upper topic field country =
               make_kpi_table_name upper topic field country
           \<and> make_comparison_table_name str_upper topic field country =
               make_comparison_table_name upper topic field country
           \<and> filter is_lower_ascii (make_kpi_table_name str_upper topic field country) = []
           \<and> filter is_lower_ascii (make_comparison_table_name str_upper topic field country) = []"
    if u: "upper_on_ascii str_upper"
      and a: "list_all is_ascii topic" "list_all is_ascii field" "list_all is_ascii country"
  proof -
    have low: "filter is_lower_ascii (make_kpi_table_name upper topic field country) = []"
      "filter is_lower_ascii (make_comparison_table_name upper topic field country) = []"
      by (simp_all add: make_kpi_table_name_def make_comparison_table_name_def
            clean_name_no_lower is_lower_ascii_def)
    have "make_kpi_table_name str_upper topic field country =
               make_kpi_table_name upper topic field country"
      "make_comparison_table_name str_upper topic field country =
               make_comparison_table_name upper topic field country"
      by (simp_all only: make_kpi_table_name_def make_comparison_table_name_def
            clean_name_ascii [OF u a(1)] clean_name_ascii [OF u a(2)] clean_name_ascii [OF u a(3)])
    with low show ?thesis by simp
  qed
  have nm: "make_kpi_table_name str_upper topic field country =
     ''KPI_'' @ clean_name str_upper topic @ ''_'' @ clean_name str_upper field
       @ ''_'' @ clean_name str_upper country"
    "make_comparison_table_name str_upper topic field country =
     ''COMP_'' @ clean_name str_upper topic @ ''_'' @ clean_name str_upper field
       @ ''_'' @ clean_name str_upper country"
    by (simp_all only: make_kpi_table_name_def make_comparison_table_name_def)
  from nm sp ex asc clean_name_chars [of str_upper s] show ?thesis
    by blast
qed

theorem table_names_normalized_witness:
  "upper_on_ascii upper
   \<and> list_all is_ascii ''employers'' \<and> list_all is_ascii ''BGI Company Name''
   \<and> list_all is_ascii ''United States''
   \<and> make_kpi_table_name upper ''employers'' ''BGI Company Name'' ''United States'' =
        ''KPI_EMPLOYERS_BGI_COMPANY_NAME_UNITED_STATES''
   \<and> filter is_lower_ascii
        (make_comparison_table_name upper ''employers'' ''BGI Company Name'' ''United States'') = []"
proof -
  have u: "upper_on_ascii upper" by (rule upper_on_ascii_upper)
  have a: "list_all is_ascii ''employers''" "list_all is_ascii ''BGI Company Name''"
      "list_all is_ascii ''United States''"
    by code_simp+
  note t = table_names_normalized [of upper "''employers''" "''BGI Company Name''"
      "''United States''" "[]"]
  from t u have "make_kpi_table_name upper ''employers'' ''BGI Company Name'' ''United States'' =
        ''KPI_EMPLOYERS_BGI_COMPANY_NAME_UNITED_STATES''"
    by blast
  moreover from t u a have "filter is_lower_ascii
        (make_comparison_table_name upper ''employers'' ''BGI Company Name'' ''United States'') = []"
    by blast
  ultimately show ?thesis
    using u a by blast
qed

subsection \<open>Frames and the percent change\<close>

lemma length_align_to [simp]: "length (align_to n d s) = n"
  by (simp add: align_to_def)

lemma nth_align_to:
  "i < n \<Longrightarrow> align_to n d s ! i = (if i < length s then s ! i else d)"
  by (simp add: align_to_def nth_append)

lemma align_to_same [simp]: "length s = n \<Longrightarrow> align_to n d s = s"
  by (simp add: align_to_def)

lemma length_rows_set_num [simp]: "length (rows (set_num f c s)) = length (rows f)"
  by (simp add: set_num_def)

lemma num_at_set_num:
  "i < length (rows f) \<Longrightarrow>
   num_at (rows (set_num f c s) ! i) c' =
     (if c' = c then (if i < length s then s ! i else NaN) else num_at (rows f ! i) c')"
  by (simp add: set_num_def nth_align_to num_at_def update_conv')

lemma length_pct_change_series [simp]:
  "length base = length new \<Longrightarrow> length (pct_change_series base new) = length new"
  by (simp add: pct_change_series_def series_where_def series_div_def series_sub_def series_ne0_def)

lemma nth_pct_change_series:
  "length base = length new \<Longrightarrow> i < length new \<Longrightarrow>
   pct_change_series base new ! i =
     (if base ! i = Fin 0 then NaN else num_div (num_sub (new ! i) (base ! i)) (base ! i))"
  by (simp add: pct_change_series_def series_where_def series_div_def series_sub_def
        series_ne0_def ne0_def)

lemma pct_change_finite:
  "x \<noteq> 0 \<Longrightarrow> num_div (num_sub (Fin y) (Fin x)) (Fin x) = Fin ((y - x) / x)"
  by (simp add: num_sub_def)

text \<open>
  Claim C1. When the comparison table has both count columns, the derivation of
  \<open>pct_change\<close> succeeds and keeps the rows; in every row whose base-version count is
  zero the derived value is missing (\<open>NaN\<close>), whatever the new-version count; in every other
  row it is (new count - base count) / base count, which for finite counts is the
  rational quotient. In particular base 100 with new 150 gives 0.5, base 100 with new 50
  gives -0.5, and base 0 gives a missing value.
\<close>

theorem pct_change_derived:
  "(cnt_new \<in> set (num_columns df) \<and> cnt_base \<in> set (num_columns df) \<longrightarrow>
     (\<exists>df'. derive_pct_change df = Inr df'
           \<and> length (rows df') = length (rows df)
           \<and> (\<forall>i < length (rows df).
                 (num_at (rows df ! i) cnt_base = Fin 0 \<longrightarrow>
                    num_at (rows df' ! i) ''pct_change'' = NaN)
               \<and> (\<forall>b n. num_at (rows df ! i) cnt_base = Fin b \<and> b \<noteq> 0
                       \<and> num_at (rows df ! i) cnt_new = Fin n \<longrightarrow>
                    num_at (rows df' ! i) ''pct_change'' = Fin ((n - b) / b))
               \<and> (num_at (rows df ! i) cnt_base \<noteq> Fin 0 \<longrightarrow>
                    num_at (rows df' ! i) ''pct_change'' =
                      num_div (num_sub (num_at (rows df ! i) cnt_new) (num_at (rows df ! i) cnt_base))
                        (num_at (rows df ! i) cnt_base)))))
   \<and> pct_change_series [Fin 100] [Fin 150] = [Fin (1 / 2)]
   \<and> pct_change_series [Fin 100] [Fin 50] = [Fin (- (1 / 2))]
   \<and> pct_change_series [Fin 0] [x] = [NaN]"
proof -
  have ex: "pct_change_series [Fin 100] [Fin 150] = [Fin (1 / 2)]"
    "pct_change_series [Fin 100] [Fin 50] = [Fin (- (1 / 2))]"
    "pct_change_series [Fin 0] [x] = [NaN]"
    by (simp_all add: pct_change_series_def series_where_def series_div_def series_sub_def
          series_ne0_def ne0_def num_sub_def)
  show ?thesis
    using ex
    by (auto simp add: derive_pct_change_def get_num_def num_at_set_num nth_pct_change_series
          pct_change_finite)
qed

theorem pct_change_derived_witness:
  "cnt_new \<in> set (num_columns scenario_df) \<and> cnt_base \<in> set (num_columns scenario_df)
   \<and> (\<exists>df'. derive_pct_change scenario_df = Inr df'
         \<and> num_at (rows df' ! 0) ''pct_change'' = Fin (1 / 5)
         \<and> num_at (rows df' ! 1) ''pct_change'' = NaN)"
proof -
  have cols: "cnt_new \<in> set (num_columns scenario_df) \<and> cnt_base \<in> set (num_columns scenario_df)"
    by (simp add: scenario_df_def)
  have len: "length (rows scenario_df) = 2"
    by (simp add: scenario_df_def)
  have r0: "num_at (rows scenario_df ! 0) cnt_base = Fin 100"
    "num_at (rows scenario_df ! 0) cnt_new = Fin 120"
    "num_at (rows scenario_df ! 1) cnt_base = Fin 0"
    by code_simp+
  from pct_change_derived [of scenario_df] cols
  obtain df' where d: "derive_pct_change scenario_df = Inr df'"
    and p: "\<forall>i < length (rows scenario_df).
                 (num_at (rows scenario_df ! i) cnt_base = Fin 0 \<longrightarrow>
                    num_at (rows df' ! i) ''pct_change'' = NaN)
               \<and> (\<forall>b n. num_at (rows scenario_df ! i) cnt_base = Fin b \<and> b \<noteq> 0
                       \<and> num_at (rows scenario_df ! i) cnt_new = Fin n \<longrightarrow>
                    num_at (rows df' ! i) ''pct_change'' = Fin ((n - b) / b))"
    by blast
  from p len r0 have "num_at (rows df' ! 0) ''pct_change'' = Fin ((120 - 100) / 100)"
    by force
  moreover from p len r0 have "num_at (rows df' ! 1) ''pct_change'' = NaN"
    by force
  ultimately show ?thesis using cols d by simp
qed

subsection \<open>Sorting\<close>

lemma num_le_refl: "\<not> isna x \<Longrightarrow> num_le x x"
  by (cases x) (simp_all add: isna_def)

lemma num_le_total: "\<not> isna x \<Longrightarrow> \<not> isna y \<Longrightarrow> num_le x y \<or> num_le y x"
  by (cases x; cases y) (auto simp add: isna_def)

lemma num_le_trans: "num_le x y \<Longrightarrow> num_le y z \<Longrightarrow> num_le x z"
  by (cases x; cases y; cases z) simp_all

lemma num_abs_isna [simp]: "isna (num_abs x) = isna x"
  by (cases x) (simp_all add: isna_def)

lemma mset_insert_desc: "mset (insert_desc k x xs) = add_mset x (mset xs)"
  by (induction xs) simp_all

lemma set_insert_desc: "set (insert_desc k x xs) = insert x (set xs)"
  by (induction xs) auto

lemma sorted_insert_desc:
  assumes "\<not> isna (k x)" and "\<forall>y \<in> set xs. \<not> isna (k y)"
    and "sorted_wrt (\<lambda>a b. num_le (k b) (k a)) xs"
  shows "sorted_wrt (\<lambda>a b. num_le (k b) (k a)) (insert_desc k x xs)"
  using assms
proof (induction xs)
  case Nil
  then show ?case by simp
next
  case (Cons y ys)
  show ?case
  proof (cases "num_le (k y) (k x)")
    case True
    have "\<forall>z \<in> set ys. num_le (k z) (k x)"
      using Cons.prems(3) True by (auto intro: num_le_trans)
    with True Cons.prems(3) show ?thesis by simp
  next
    case False
    have "num_le (k x) (k y)"
      using False Cons.prems(1,2) num_le_total [of "k x" "k y"] by simp
    with False Cons show ?thesis
      by (auto simp add: set_insert_desc)
  qed
qed

lemma mset_stable_desc: "mset (stable_desc k xs) = mset xs"
  by (induction xs) (simp_all add: stable_desc_def mset_insert_desc)

lemma sorted_stable_desc:
  "\<forall>x \<in> set xs. \<not> isna (k x) \<Longrightarrow> sorted_wrt (\<lambda>a b. num_le (k b) (k a)) (stable_desc k xs)"
proof (induction xs)
  case Nil
  then show ?case by (simp add: stable_desc_def)
next
  case (Cons x xs)
  have "set (stable_desc k xs) = set xs"
    using mset_stable_desc [of k xs] by (metis set_mset_mset)
  with Cons show ?case
    using sorted_insert_desc [of k x "stable_desc k xs"]
    by (simp add: stable_desc_def)
qed

lemma sorts_descending_stable: "sorts_descending stable_desc"
  by (simp add: sorts_descending_def mset_stable_desc sorted_stable_desc)

text \<open>\<open>stable_desc\<close> keeps the rows of one key in their original order.\<close>

lemma filter_insert_desc:
  "\<not> isna v \<Longrightarrow>
   filter (\<lambda>r. k r = v) (insert_desc k x xs) =
     (if k x = v then x # filter (\<lambda>r. k r = v) xs else filter (\<lambda>r. k r = v) xs)"
  by (induction xs) (auto simp add: num_le_refl)

lemma stable_desc_stable:
  "\<not> isna v \<Longrightarrow> filter (\<lambda>r. k r = v) (stable_desc k xs) = filter (\<lambda>r. k r = v) xs"
  by (induction xs) (simp_all add: stable_desc_def filter_insert_desc)

subsection \<open>Ranking\<close>

lemma sorts_descendingD:
  "sorts_descending kind \<Longrightarrow> \<forall>x \<in> set xs. \<not> isna (k x) \<Longrightarrow>
   mset (kind k xs) = mset xs \<and> sorted_wrt (\<lambda>a b. num_le (k b) (k a)) (kind k xs)"
  by (simp add: sorts_descending_def)

lemma sort_values_desc_rows:
  assumes "sorts_descending kind" and "c \<in> set (num_columns f)"
  shows "\<exists>ys. sort_values_desc kind c key f =
               Inr (f\<lparr>rows := ys @ filter (\<lambda>r. isna (key (num_at r c))) (rows f)\<rparr>)
          \<and> mset ys = mset (filter (\<lambda>r. \<not> isna (key (num_at r c))) (rows f))
          \<and> sorted_wrt (\<lambda>a b. num_le (key (num_at b c)) (key (num_at a c))) ys"
proof -
  let ?k = "\<lambda>r. key (num_at r c)"
  let ?xs = "filter (\<lambda>r. \<not> isna (?k r)) (rows f)"
  have "\<forall>x \<in> set ?xs. \<not> isna (?k x)" by simp
  then have "mset (kind ?k ?xs) = mset ?xs \<and>
      sorted_wrt (\<lambda>a b. num_le (?k b) (?k a)) (kind ?k ?xs)"
    by (rule sorts_descendingD [OF assms(1)])
  with assms(2) show ?thesis
    by (intro exI [of _ "kind ?k ?xs"]) (simp add: sort_values_desc_def get_num_def)
qed

text \<open>
  For any sorting algorithm that keeps the promise of the library, \<open>rank_top_n\<close> succeeds
  when the sort column is a numeric column of the table; its rows are the first \<open>n\<close> rows
  of a rearrangement of the table in which the rows with a key come first, in descending
  order of the key, and the rows with a missing key come last in their original order;
  the header is unchanged. The result is a function of the table, the column, \<open>n\<close> and
  the algorithm. The order among rows with equal keys is that of the algorithm, which is
  code of numpy: nothing here settles whether it is the original row order.
\<close>

lemma rank_top_n_sorted:
  assumes "sorts_descending kind" and "key_col \<in> set (num_columns df)"
  shows "\<exists>r ys. rank_top_n kind key_col n df = Inr r
          \<and> rows r = take n (ys @ filter (\<lambda>row. isna (num_at row key_col)) (rows df))
          \<and> mset ys = mset (filter (\<lambda>row. \<not> isna (num_at row key_col)) (rows df))
          \<and> sorted_wrt (\<lambda>a b. num_le (num_at b key_col) (num_at a key_col)) ys
          \<and> txt_columns r = txt_columns df \<and> num_columns r = num_columns df
          \<and> length (rows r) = min n (length (rows df))"
proof -
  from sort_values_desc_rows [OF assms, of "\<lambda>x. x"]
  obtain ys where s: "sort_values_desc kind key_col (\<lambda>x. x) df =
               Inr (df\<lparr>rows := ys @ filter (\<lambda>r. isna (num_at r key_col)) (rows df)\<rparr>)"
    and m: "mset ys = mset (filter (\<lambda>r. \<not> isna (num_at r key_col)) (rows df))"
    and o: "sorted_wrt (\<lambda>a b. num_le (num_at b key_col) (num_at a key_col)) ys"
    by blast
  from m have "length ys = length (filter (\<lambda>r. \<not> isna (num_at r key_col)) (rows df))"
    by (metis size_mset)
  then have len: "length (ys @ filter (\<lambda>r. isna (num_at r key_col)) (rows df)) = length (rows df)"
    using sum_length_filter_compl [of "\<lambda>r. \<not> isna (num_at r key_col)" "rows df"] by simp
  let ?all = "ys @ filter (\<lambda>r. isna (num_at r key_col)) (rows df)"
  have r: "rank_top_n kind key_col n df = Inr (df\<lparr>rows := take n ?all\<rparr>)"
    using s by (simp add: rank_top_n_def head_def)
  have "length (take n ?all) = min n (length (rows df))"
    using len by (simp only: length_take min.commute)
  with r m o show ?thesis
    by (intro exI [of _ "df\<lparr>rows := take n ?all\<rparr>"] exI [of _ ys]) simp
qed

lemma rank_top_n_sorted_example:
  "sorts_descending stable_desc \<and> cnt_new \<in> set (num_columns tie_df)
   \<and> map_sum id categories (rank_top_n stable_desc cnt_new 1 tie_df) = Inr [Some ''Associate'']"
proof -
  have h: "sorts_descending stable_desc" by (rule sorts_descending_stable)
  have c: "cnt_new \<in> set (num_columns tie_df)" by (simp add: tie_df_def)
  from rank_top_n_sorted [OF h c, of 1]
  obtain r where "rank_top_n stable_desc cnt_new 1 tie_df = Inr r" by blast
  moreover have "map_sum id categories (rank_top_n stable_desc cnt_new 1 tie_df) = Inr [Some ''Associate'']"
    by code_simp
  ultimately show ?thesis using h c by simp
qed

subsection \<open>Ranking by absolute change\<close>

lemma map2_same: "map2 F xs (map g xs) = map (\<lambda>x. F x (g x)) xs"
  by (induction xs) simp_all

lemma rows_set_num_map:
  "rows (set_num f c (map g (rows f))) =
     map (\<lambda>r. \<lparr> texts = AList.delete c (texts r), nums = AList.update c (g r) (nums r) \<rparr>) (rows f)"
  by (simp add: set_num_def map2_same)

lemma num_at_extended:
  "num_at \<lparr> texts = t, nums = AList.update c v (nums r) \<rparr> c' = (if c' = c then v else num_at r c')"
  by (simp add: num_at_def update_conv')

lemma txt_at_extended:
  "c' \<noteq> c \<Longrightarrow> txt_at \<lparr> texts = AList.delete c (texts r), nums = m \<rparr> c' = txt_at r c'"
  by (simp add: txt_at_def delete_conv')

lemma with_abs_simps [simp]:
  "num_at (with_abs r) ''abs_change'' = num_abs (num_at r ''pct_change'')"
  "num_at (with_abs r) ''pct_change'' = num_at r ''pct_change''"
  "txt_at (with_abs r) ''field_value'' = txt_at r ''field_value''"
  by (simp_all add: with_abs_def num_at_extended txt_at_extended)

lemma change_of_with_abs [simp]: "change_of (with_abs r) = change_of r"
  by (simp add: change_of_def)

lemma has_change_with_abs [simp]: "has_change (with_abs r) = has_change r"
  by (simp add: has_change_def)

lemma rank_by_abs_change_unfold:
  assumes "''pct_change'' \<in> set (num_columns df)"
  shows "rank_by_abs_change kind n df =
     (case sort_values_desc kind ''abs_change'' (\<lambda>x. x)
            \<lparr> txt_columns = removeAll ''abs_change'' (txt_columns df),
              num_columns = (if ''abs_change'' \<in> set (num_columns df) then num_columns df
                             else num_columns df @ [''abs_change'']),
              rows = map with_abs (filter has_change (rows df)) \<rparr> of
        Inl e \<Rightarrow> Inl e | Inr srt \<Rightarrow> Inr (head n srt))"
proof -
  let ?d = "df\<lparr>rows := filter (\<lambda>r. \<not> isna (num_at r ''pct_change'')) (rows df)\<rparr>"
  have s: "series_abs (map (\<lambda>r. num_at r ''pct_change'') (rows ?d))
            = map (\<lambda>r. num_abs (num_at r ''pct_change'')) (rows ?d)"
    by (simp add: series_abs_def)
  have "set_num ?d ''abs_change'' (map (\<lambda>r. num_abs (num_at r ''pct_change'')) (rows ?d)) =
      \<lparr> txt_columns = removeAll ''abs_change'' (txt_columns df),
        num_columns = (if ''abs_change'' \<in> set (num_columns df) then num_columns df
                       else num_columns df @ [''abs_change'']),
        rows = map with_abs (filter has_change (rows df)) \<rparr>"
  proof -
    have e1: "has_change = (\<lambda>r. \<not> isna (num_at r ''pct_change''))"
      by (simp add: fun_eq_iff has_change_def)
    have e2: "with_abs = (\<lambda>r. \<lparr> texts = AList.delete ''abs_change'' (texts r),
                  nums = AList.update ''abs_change'' (num_abs (num_at r ''pct_change'')) (nums r) \<rparr>)"
      by (simp add: fun_eq_iff with_abs_def)
    show ?thesis
      by (simp add: set_num_def map2_same e1 e2)
  qed
  with assms s show ?thesis
    by (simp add: rank_by_abs_change_def dropna_def get_num_def)
qed


lemma mset_eq_singleton: "mset xs = mset [b] \<Longrightarrow> xs = [b]"
  by (simp add: mset_single_iff)

lemma rank_by_abs_change_rows:
  assumes "sorts_descending kind" and "''pct_change'' \<in> set (num_columns df)"
  shows "\<exists>r ys. rank_by_abs_change kind n df = Inr r \<and> rows r = take n ys
          \<and> mset ys = mset (map with_abs (filter has_change (rows df)))
          \<and> sorted_wrt abs_change_ge ys"
proof -
  let ?rows = "map with_abs (filter has_change (rows df))"
  let ?f = "\<lparr> txt_columns = removeAll ''abs_change'' (txt_columns df),
              num_columns = (if ''abs_change'' \<in> set (num_columns df) then num_columns df
                             else num_columns df @ [''abs_change'']),
              rows = ?rows \<rparr>"
  have c: "''abs_change'' \<in> set (num_columns ?f)" by simp
  have nn: "\<forall>r \<in> set ?rows. \<not> isna (num_at r ''abs_change'')"
    by (auto simp add: has_change_def)
  then have f1: "filter (\<lambda>r. \<not> isna (num_at r ''abs_change'')) ?rows = ?rows"
    and f2: "filter (\<lambda>r. isna (num_at r ''abs_change'')) ?rows = []"
    by (simp_all only: filter_id_conv filter_empty_conv)
  from sort_values_desc_rows [OF assms(1) c, of "\<lambda>x. x"] f1 f2
  obtain ys where s: "sort_values_desc kind ''abs_change'' (\<lambda>x. x) ?f = Inr (?f\<lparr>rows := ys\<rparr>)"
    and m: "mset ys = mset ?rows"
    and o: "sorted_wrt (\<lambda>a b. num_le (num_at b ''abs_change'') (num_at a ''abs_change'')) ys"
    by auto
  from m have "set ys = set ?rows" by (metis set_mset_mset)
  then have "\<forall>r \<in> set ys. num_at r ''abs_change'' = num_abs (num_at r ''pct_change'')"
    by auto
  with o have "sorted_wrt abs_change_ge ys"
    by (auto simp add: abs_change_ge_def elim!: sorted_wrt_mono_rel [rotated])
  with s m show ?thesis
    by (intro exI [of _ "head n (?f\<lparr>rows := ys\<rparr>)"] exI [of _ ys])
       (simp add: rank_by_abs_change_unfold [OF assms(2)] head_def)
qed


text \<open>
  Claim C6. For any sorting algorithm that keeps the promise of the library and any table
  with a \<open>pct_change\<close> column, \<open>rank_by_abs_change\<close> succeeds; its rows are the first \<open>n\<close>
  rows of a rearrangement of exactly the rows whose \<open>pct_change\<close> is defined, in descending
  order of the absolute value of \<open>pct_change\<close>: every row of the result has a defined
  \<open>pct_change\<close>, the result is in descending order of the absolute change, and it has
  \<open>n\<close> rows, or all the rows with a defined change when there are fewer. On the scenario
  table (Bachelor's Degree 100 and 120, Certificate 0 and 10) the ranking of \<open>main\<close>
  returns the single row Bachelor's Degree with \<open>pct_change\<close> 1/5.
\<close>

theorem rank_by_abs_change_sorted:
  assumes "sorts_descending kind" and "''pct_change'' \<in> set (num_columns df)"
  shows "(\<exists>r ys. rank_by_abs_change kind n df = Inr r \<and> rows r = take n ys
            \<and> mset (map change_of ys) = mset (map change_of (filter has_change (rows df)))
            \<and> sorted_wrt abs_change_ge ys
            \<and> list_all has_change (rows r)
            \<and> sorted_wrt abs_change_ge (rows r)
            \<and> length (rows r) = min n (length (filter has_change (rows df))))
       \<and> map_sum id (\<lambda>r. map change_of (rows r))
            (case derive_pct_change scenario_df of Inl e \<Rightarrow> Inl e | Inr d \<Rightarrow> df_change kind d)
           = Inr [(Some (''Bachelor'' @ [CHR 0x27] @ ''s Degree''), Fin (1 / 5))]"
proof
  from rank_by_abs_change_rows [OF assms, of n]
  obtain r ys where r: "rank_by_abs_change kind n df = Inr r" and t: "rows r = take n ys"
    and m: "mset ys = mset (map with_abs (filter has_change (rows df)))"
    and o: "sorted_wrt abs_change_ge ys"
    by blast
  from m have "mset (map change_of ys) = mset (map change_of (map with_abs (filter has_change (rows df))))"
    by (metis mset_map)
  then have m': "mset (map change_of ys) = mset (map change_of (filter has_change (rows df)))"
    by (simp add: comp_def)
  from m have "set ys = set (map with_abs (filter has_change (rows df)))"
    by (metis set_mset_mset)
  then have "\<forall>x \<in> set ys. has_change x" by auto
  then have a: "list_all has_change (rows r)"
    using t by (auto simp add: list_all_iff dest: in_set_takeD)
  from m have "length ys = length (filter has_change (rows df))"
    by (metis size_mset length_map)
  then have l: "length (rows r) = min n (length (filter has_change (rows df)))"
    using t by (simp add: min.commute)
  from o t have "sorted_wrt abs_change_ge (rows r)"
    by (simp add: sorted_wrt_take)
  with r t m' o a l
  show "\<exists>r ys. rank_by_abs_change kind n df = Inr r \<and> rows r = take n ys
            \<and> mset (map change_of ys) = mset (map change_of (filter has_change (rows df)))
            \<and> sorted_wrt abs_change_ge ys
            \<and> list_all has_change (rows r)
            \<and> sorted_wrt abs_change_ge (rows r)
            \<and> length (rows r) = min n (length (filter has_change (rows df)))"
    by blast
next
  let ?b = "(Some (''Bachelor'' @ [CHR 0x27] @ ''s Degree''), Fin (1 / 5))"
  obtain d where d: "derive_pct_change scenario_df = Inr d"
    by (simp add: derive_pct_change_def get_num_def scenario_df_def)
  have cols: "map_sum id num_columns (derive_pct_change scenario_df) = Inr [cnt_base, cnt_new, ''pct_change'']"
    by code_simp
  have chg: "map_sum id (\<lambda>d. map change_of (filter has_change (rows d))) (derive_pct_change scenario_df)
      = Inr [?b]"
    by code_simp
  from cols d have c: "''pct_change'' \<in> set (num_columns d)" by simp
  from chg d have f: "map change_of (filter has_change (rows d)) = [?b]" by simp
  from rank_by_abs_change_rows [OF assms(1) c, of 20]
  obtain r ys where r: "rank_by_abs_change kind 20 d = Inr r" and t: "rows r = take 20 ys"
    and m: "mset ys = mset (map with_abs (filter has_change (rows d)))"
    by blast
  from m have "mset (map change_of ys) = mset (map change_of (map with_abs (filter has_change (rows d))))"
    by (metis mset_map)
  then have "mset (map change_of ys) = mset [?b]"
    using f by (simp add: comp_def)
  then have "map change_of ys = [?b]"
    by (rule mset_eq_singleton)
  then have "map change_of (rows r) = [?b]"
    using t by (simp add: take_map [symmetric])
  with d r show "map_sum id (\<lambda>r. map change_of (rows r))
            (case derive_pct_change scenario_df of Inl e \<Rightarrow> Inl e | Inr d \<Rightarrow> df_change kind d)
           = Inr [?b]"
    by (simp add: df_change_def)
qed


theorem rank_by_abs_change_sorted_witness:
  "sorts_descending stable_desc \<and> ''pct_change'' \<in> set (num_columns scenario_derived)
   \<and> (\<exists>r. rank_by_abs_change stable_desc 20 scenario_derived = Inr r
          \<and> list_all has_change (rows r) \<and> length (rows r) = 1)"
proof -
  have h: "sorts_descending stable_desc" by (rule sorts_descending_stable)
  have c: "''pct_change'' \<in> set (num_columns scenario_derived)" by code_simp
  have n: "length (filter has_change (rows scenario_derived)) = 1" by code_simp
  from rank_by_abs_change_sorted [OF h c, of 20] n
  have "\<exists>r. rank_by_abs_change stable_desc 20 scenario_derived = Inr r
          \<and> list_all has_change (rows r) \<and> length (rows r) = 1"
    by auto
  with h c show ?thesis by simp
qed

subsection \<open>The chart functions leave their input as it is\<close>

lemma preserves_ret: "Q x \<Longrightarrow> preserves n Q (ret x)"
  by (simp add: preserves_def ret_def)

lemma preserves_lift: "preserves n (\<lambda>_. True) (lift r)"
  by (simp add: preserves_def lift_def split: sum.split)

lemma preserves_deref: "preserves n (\<lambda>_. True) (deref r)"
  by (simp add: preserves_def deref_def)

lemma preserves_alloc: "preserves n (\<lambda>r. n \<le> r) (alloc f)"
  by (simp add: preserves_def alloc_def)

lemma preserves_update_at: "n \<le> r \<Longrightarrow> preserves n (\<lambda>_. True) (update_at r g)"
  by (simp add: preserves_def update_at_def)

lemma preserves_bind:
  assumes "preserves n P m" and "\<And>x. P x \<Longrightarrow> preserves n Q (f x)"
  shows "preserves n Q (io_bind m f)"
  unfolding preserves_def
proof (intro allI impI)
  fix h :: store
  assume n: "n \<le> length h"
  obtain res h' where mh: "m h = (res, h')" by (cases "m h")
  from assms(1) n mh have 1: "n \<le> length h'" "take n h' = take n h"
    and p: "case res of Inr x \<Rightarrow> P x | Inl e \<Rightarrow> True"
    by (auto simp add: preserves_def)
  show "n \<le> length (snd (io_bind m f h)) \<and> take n (snd (io_bind m f h)) = take n h
        \<and> (case fst (io_bind m f h) of Inr x \<Rightarrow> Q x | Inl e \<Rightarrow> True)"
  proof (cases res)
    case (Inl e)
    with mh 1 show ?thesis by (simp add: io_bind_def)
  next
    case (Inr x)
    with p have "P x" by simp
    then have "preserves n Q (f x)" by (rule assms(2))
    with 1 have "n \<le> length (snd (f x h')) \<and> take n (snd (f x h')) = take n h
        \<and> (case fst (f x h') of Inr x \<Rightarrow> Q x | Inl e \<Rightarrow> True)"
      by (simp add: preserves_def)
    with mh Inr show ?thesis by (simp add: io_bind_def)
  qed
qed

lemma preserves_weaken: "preserves n P m \<Longrightarrow> (\<And>x. P x \<Longrightarrow> Q x) \<Longrightarrow> preserves n Q m"
  by (auto simp add: preserves_def split: sum.splits)

lemma preserves_any: "preserves n P m \<Longrightarrow> preserves n (\<lambda>_. True) m"
  by (erule preserves_weaken) simp

lemma preserves_copy_df: "preserves n (\<lambda>r. n \<le> r) (copy_df df)"
  unfolding copy_df_def
  by (rule preserves_bind [OF preserves_deref]) (rule preserves_alloc)

lemma preserves_getitem_num: "preserves n (\<lambda>_. True) (getitem_num df c)"
  unfolding getitem_num_def
  by (rule preserves_bind [OF preserves_deref]) (rule preserves_lift)

lemma preserves_getitem_txt: "preserves n (\<lambda>_. True) (getitem_txt df c)"
  unfolding getitem_txt_def
  by (rule preserves_bind [OF preserves_deref]) (rule preserves_lift)

lemma preserves_setitem:
  "n \<le> df \<Longrightarrow> preserves n (\<lambda>_. True) (setitem_num df c s)"
  "n \<le> df \<Longrightarrow> preserves n (\<lambda>_. True) (setitem_scalar df c x)"
  "n \<le> df \<Longrightarrow> preserves n (\<lambda>_. True) (setitem_txt df c t)"
  by (simp_all add: setitem_num_def setitem_scalar_def setitem_txt_def preserves_update_at)

lemma preserves_melt_df: "preserves n (\<lambda>r. n \<le> r) (melt_df df i vs var val)"
  unfolding melt_df_def
  by (intro preserves_bind [OF preserves_deref] preserves_bind [OF preserves_lift] preserves_alloc)

lemma preserves_melt_helper: "preserves n (\<lambda>r. n \<le> r) (melt_helper df value_cols value_name)"
  unfolding melt_helper_def
  by (intro preserves_bind [OF preserves_copy_df] preserves_bind [OF preserves_getitem_txt]
        preserves_bind [OF preserves_setitem(3)] preserves_melt_df)

lemma preserves_totals_of: "preserves n (\<lambda>_. True) (totals_of df cols)"
proof (induction cols)
  case Nil
  show ?case by (simp add: preserves_ret)
next
  case (Cons c cs)
  show ?case
    by (simp only: totals_of.simps)
       (intro preserves_bind [OF preserves_getitem_num] preserves_bind [OF Cons] preserves_ret TrueI)
qed

lemma preserves_pct_loop:
  "n \<le> df_pct \<Longrightarrow> preserves n (\<lambda>_. True) (pct_loop df df_pct totals cols)"
proof (induction cols)
  case Nil
  show ?case by (simp add: preserves_ret)
next
  case (Cons c cs)
  have step: "preserves n (\<lambda>_. True)
      (if truthy t
       then io_bind (getitem_num df c) (\<lambda>s. setitem_num df_pct (pct_name c) (series_div_scalar s t))
       else setitem_scalar df_pct (pct_name c) (Fin 0))" for t
    using Cons.prems
    by (auto intro!: preserves_bind [OF preserves_getitem_num] preserves_setitem)
  show ?case
    by (simp only: pct_loop.simps)
       (intro preserves_bind [OF preserves_lift] preserves_bind [OF step] Cons.IH Cons.prems)
qed

lemma preserves_compute_percentages:
  "preserves n (\<lambda>r. n \<le> r) (compute_percentages df value_cols)"
  unfolding compute_percentages_def
  by (intro preserves_bind [OF preserves_totals_of] preserves_bind [OF preserves_copy_df]
        preserves_bind [OF preserves_pct_loop] preserves_ret)

lemma preserves_chart_percentages: "preserves n (\<lambda>_. True) (chart_percentages kind df)"
  unfolding chart_percentages_def
  by (intro preserves_bind [OF preserves_deref] preserves_bind [OF preserves_compute_percentages]
        preserves_bind [OF preserves_lift] preserves_bind [OF preserves_melt_helper]
        preserves_bind [OF preserves_getitem_txt] preserves_bind [OF preserves_setitem(3)]
        preserves_ret TrueI)

lemma preserves_chart_counts: "preserves n (\<lambda>_. True) (chart_counts kind df)"
  unfolding chart_counts_def
  by (intro preserves_bind [OF preserves_deref]
        preserves_bind [OF preserves_lift] preserves_bind [OF preserves_melt_helper]
        preserves_bind [OF preserves_getitem_txt] preserves_bind [OF preserves_setitem(3)]
        preserves_ret TrueI)

lemma preserves_chart_pct_change: "preserves n (\<lambda>_. True) (chart_pct_change kind df)"
  unfolding chart_pct_change_def
  by (intro preserves_bind [OF preserves_copy_df] preserves_bind [OF preserves_getitem_txt]
        preserves_bind [OF preserves_setitem(3)] preserves_bind [OF preserves_deref]
        preserves_bind [OF preserves_lift] preserves_ret TrueI)

lemma preserves_store:
  "preserves (length h) Q m \<Longrightarrow> take (length h) (snd (m h)) = h"
  by (simp add: preserves_def)


text \<open>
  Claim C10. Whatever the store, the reference and the outcome (a result or an exception),
  every DataFrame that existed before a call of \<open>chart_percentages\<close>, \<open>chart_pct_change\<close>
  or \<open>_melt\<close> is the same after it: the derived columns and the placeholder labels go to
  objects made during the call. The same holds after \<open>chart_percentages\<close> followed by
  \<open>chart_counts\<close> on the same table, so both get the identical input.
\<close>

theorem chart_inputs_unchanged:
  "take (length h) (snd (chart_percentages kind df h)) = h
   \<and> take (length h) (snd (chart_pct_change kind df h)) = h
   \<and> take (length h) (snd (melt_helper df value_cols value_name h)) = h
   \<and> take (length h) (snd (chart_counts kind df (snd (chart_percentages kind df h)))) = h"
proof -
  let ?h1 = "snd (chart_percentages kind df h)"
  have p: "take (length h) ?h1 = h" and l: "length h \<le> length ?h1"
    using preserves_chart_percentages [of "length h" kind df]
    by (simp_all add: preserves_def)
  have "take (length h) (snd (chart_counts kind df ?h1)) = take (length h) ?h1"
    using preserves_chart_counts [of "length h" kind df] l
    by (simp add: preserves_def)
  with p show ?thesis
    using preserves_store [OF preserves_chart_pct_change, of h kind df]
      preserves_store [OF preserves_melt_helper, of h df value_cols value_name]
    by simp
qed


theorem chart_inputs_unchanged_witness:
  "take 1 (snd (melt_helper 0 [cnt_base, cnt_new] ''count'' [null_df])) = [null_df]
   \<and> categories null_df = [Some ''Associate'', None]
   \<and> categories (snd (melt_helper 0 [cnt_base, cnt_new] ''count'' [null_df]) ! 1)
        = [Some ''Associate'', Some ''<NULL>'']"
proof -
  have "take 1 (snd (melt_helper 0 [cnt_base, cnt_new] ''count'' [null_df])) = [null_df]"
    using chart_inputs_unchanged [of "[null_df]" stable_desc 0 "[cnt_base, cnt_new]" "''count''"]
    by simp
  moreover have "categories null_df = [Some ''Associate'', None]"
    by code_simp
  moreover have "categories (snd (melt_helper 0 [cnt_base, cnt_new] ''count'' [null_df]) ! 1)
        = [Some ''Associate'', Some ''<NULL>'']"
    by code_simp
  ultimately show ?thesis by simp
qed

subsection \<open>Reshaping\<close>

lemma rows_set_txt_map:
  "rows (set_txt f c (map g (rows f))) =
     map (\<lambda>r. \<lparr> texts = AList.update c (g r) (texts r), nums = AList.delete c (nums r) \<rparr>) (rows f)"
  by (simp add: set_txt_def map2_same)

lemma io_bind_simps [simp]:
  "io_bind (ret x) f = f x"
  "io_bind (lift (Inr x)) f = f x"
  "io_bind (lift (Inl e)) f h = (Inl e, h)"
  by (simp_all add: io_bind_def ret_def lift_def fun_eq_iff)

lemma io_bind_result:
  "m h = (Inr x, h') \<Longrightarrow> io_bind m f h = f x h'"
  "m h = (Inl e, h') \<Longrightarrow> io_bind m f h = (Inl e, h')"
  by (simp_all add: io_bind_def)

lemma copy_df_result:
  "df < length h \<Longrightarrow> copy_df df h = (Inr (length h), h @ [h ! df])"
  by (simp add: copy_df_def io_bind_def deref_def alloc_def)

lemma getitem_txt_result:
  "df < length h \<Longrightarrow> c \<in> set (txt_columns (h ! df)) \<Longrightarrow>
   getitem_txt df c h = (Inr (map (\<lambda>r. txt_at r c) (rows (h ! df))), h)"
  by (simp add: getitem_txt_def io_bind_def deref_def lift_def get_txt_def)

lemma getitem_num_result:
  "df < length h \<Longrightarrow> c \<in> set (num_columns (h ! df)) \<Longrightarrow>
   getitem_num df c h = (Inr (map (\<lambda>r. num_at r c) (rows (h ! df))), h)"
  by (simp add: getitem_num_def io_bind_def deref_def lift_def get_num_def)

lemma setitem_txt_result:
  "df < length h \<Longrightarrow> setitem_txt df c s h = (Inr (), h[df := set_txt (h ! df) c s])"
  by (simp add: setitem_txt_def update_at_def)

lemma melt_df_result:
  "df < length h \<Longrightarrow> melt (h ! df) i vs var val = Inr long \<Longrightarrow>
   melt_df df i vs var val h = (Inr (length h), h @ [long])"
  by (simp add: melt_df_def io_bind_def deref_def lift_def alloc_def)

text \<open>The copy that \<open>_melt\<close> and \<open>chart_pct_change\<close> make, with its labels prepared.\<close>

lemma set_txt_prepared:
  assumes "''field_value'' \<in> set (txt_columns f)"
  shows "set_txt f ''field_value'' (prepare_series (map (\<lambda>r. txt_at r ''field_value'') (rows f))) =
     \<lparr> txt_columns = txt_columns f,
       num_columns = removeAll ''field_value'' (num_columns f),
       rows = map (\<lambda>r. \<lparr> texts = AList.update ''field_value'' (Some (prepare (txt_at r ''field_value''))) (texts r),
                          nums = AList.delete ''field_value'' (nums r) \<rparr>) (rows f) \<rparr>"
  using assms rows_set_txt_map [of f "''field_value''" "\<lambda>r. Some (prepare (txt_at r ''field_value''))"]
  by (simp add: set_txt_def prepare_series_def comp_def)

lemma melt_prepared:
  assumes "''field_value'' \<in> set (txt_columns f)"
    and "set value_cols \<subseteq> set (num_columns f)"
    and "''field_value'' \<notin> set value_cols"
    and "\<not> has_column f value_name" and "value_name \<noteq> ''version''"
  shows "melt \<lparr> txt_columns = txt_columns f,
       num_columns = removeAll ''field_value'' (num_columns f),
       rows = map (\<lambda>r. \<lparr> texts = AList.update ''field_value'' (Some (prepare (txt_at r ''field_value''))) (texts r),
                          nums = AList.delete ''field_value'' (nums r) \<rparr>) (rows f) \<rparr>
      ''field_value'' value_cols ''version'' value_name =
    Inr \<lparr> txt_columns = [''field_value'', ''version''], num_columns = [value_name],
          rows = concat (map (\<lambda>v. map (\<lambda>r. long_row value_name r v) (rows f)) value_cols) \<rparr>"
proof -
  have nomiss: "filter (\<lambda>v. v \<notin> set (removeAll ''field_value'' (num_columns f))) value_cols = []"
    using assms(2,3) by (auto simp add: filter_empty_conv)
  have cell: "v \<in> set value_cols \<Longrightarrow>
      \<lparr> texts = [(''field_value'', txt_at \<lparr> texts = AList.update ''field_value'' (Some (prepare (txt_at r ''field_value''))) (texts r),
                          nums = AList.delete ''field_value'' (nums r) \<rparr> ''field_value''), (''version'', Some v)],
        nums = [(value_name, num_at \<lparr> texts = AList.update ''field_value'' (Some (prepare (txt_at r ''field_value''))) (texts r),
                          nums = AList.delete ''field_value'' (nums r) \<rparr> v)] \<rparr>
      = long_row value_name r v" for v r
    using assms(3)
    by (auto simp add: long_row_def txt_at_def num_at_def update_conv' delete_conv')
  have rows_eq: "concat (map (\<lambda>v. map (\<lambda>r.
        \<lparr> texts = [(''field_value'', txt_at r ''field_value''), (''version'', Some v)],
          nums = [(value_name, num_at r v)] \<rparr>)
          (map (\<lambda>r. \<lparr> texts = AList.update ''field_value'' (Some (prepare (txt_at r ''field_value''))) (texts r),
                          nums = AList.delete ''field_value'' (nums r) \<rparr>) (rows f))) value_cols)
     = concat (map (\<lambda>v. map (\<lambda>r. long_row value_name r v) (rows f)) value_cols)"
    by (rule arg_cong [where f = concat]) (simp add: comp_def cell cong: map_cong)
  show ?thesis
    using assms(1,4,5) nomiss rows_eq
    by (simp add: melt_def get_txt_def has_column_def)
qed

lemma melt_helper_result:
  assumes "df < length h" and "''field_value'' \<in> set (txt_columns (h ! df))"
    and "set value_cols \<subseteq> set (num_columns (h ! df))"
    and "''field_value'' \<notin> set value_cols"
    and "\<not> has_column (h ! df) value_name" and "value_name \<noteq> ''version''"
  shows "melt_helper df value_cols value_name h =
    (Inr (Suc (length h)),
     h @ [\<lparr> txt_columns = txt_columns (h ! df),
             num_columns = removeAll ''field_value'' (num_columns (h ! df)),
             rows = map (\<lambda>r. \<lparr> texts = AList.update ''field_value'' (Some (prepare (txt_at r ''field_value''))) (texts r),
                          nums = AList.delete ''field_value'' (nums r) \<rparr>) (rows (h ! df)) \<rparr>,
          \<lparr> txt_columns = [''field_value'', ''version''], num_columns = [value_name],
            rows = concat (map (\<lambda>v. map (\<lambda>r. long_row value_name r v) (rows (h ! df))) value_cols) \<rparr>])"
proof -
  let ?f = "h ! df"
  let ?f' = "\<lparr> txt_columns = txt_columns ?f,
             num_columns = removeAll ''field_value'' (num_columns ?f),
             rows = map (\<lambda>r. \<lparr> texts = AList.update ''field_value'' (Some (prepare (txt_at r ''field_value''))) (texts r),
                          nums = AList.delete ''field_value'' (nums r) \<rparr>) (rows ?f) \<rparr>"
  let ?h1 = "h @ [?f]"
  have 1: "copy_df df h = (Inr (length h), ?h1)"
    using assms(1) by (rule copy_df_result)
  have 2: "getitem_txt (length h) ''field_value'' ?h1 = (Inr (map (\<lambda>r. txt_at r ''field_value'') (rows ?f)), ?h1)"
    using assms(2) getitem_txt_result [of "length h" ?h1 "''field_value''"] by simp
  have 3: "setitem_txt (length h) ''field_value'' (prepare_series (map (\<lambda>r. txt_at r ''field_value'') (rows ?f))) ?h1
      = (Inr (), h @ [?f'])"
    using setitem_txt_result [of "length h" ?h1] set_txt_prepared [OF assms(2)] by simp
  have 4: "melt_df (length h) ''field_value'' value_cols ''version'' value_name (h @ [?f'])
      = (Inr (length (h @ [?f'])), (h @ [?f']) @ [\<lparr> txt_columns = [''field_value'', ''version''], num_columns = [value_name],
            rows = concat (map (\<lambda>v. map (\<lambda>r. long_row value_name r v) (rows ?f)) value_cols) \<rparr>])"
    by (rule melt_df_result) (simp_all add: melt_prepared [OF assms(2-6)])
  show ?thesis
    unfolding melt_helper_def
    using 1 2 3 4 by (simp add: io_bind_def)
qed


lemma length_concat_const:
  "length (concat (map (\<lambda>v. map (g v) xs) vs)) = length xs * length vs"
  by (induction vs) simp_all

text \<open>
  Claim C8. When the table has the text column \<open>field_value\<close> and the value columns are
  numeric columns of it, and \<open>value_name\<close> is a new column name, \<open>_melt\<close> returns a new
  frame whose rows are, for each value column in turn and each row of the table in order,
  one row holding the category label of the row, the name of the value column and the
  cell of the row in that column. The number of its rows is the number of rows of the
  table times the number of value columns.
\<close>

theorem melt_row_count:
  assumes "df < length h" and "''field_value'' \<in> set (txt_columns (h ! df))"
    and "set value_cols \<subseteq> set (num_columns (h ! df))"
    and "''field_value'' \<notin> set value_cols"
    and "\<not> has_column (h ! df) value_name" and "value_name \<noteq> ''version''"
  shows "\<exists>long h'. melt_helper df value_cols value_name h = (Inr long, h') \<and> long < length h'
          \<and> rows (h' ! long) =
               concat (map (\<lambda>v. map (\<lambda>r. long_row value_name r v) (rows (h ! df))) value_cols)
          \<and> length (rows (h' ! long)) = length (rows (h ! df)) * length value_cols"
  by (simp add: melt_helper_result [OF assms] nth_append length_concat_const)

theorem melt_row_count_witness:
  "(0::nat) < length [null_df] \<and> ''field_value'' \<in> set (txt_columns ([null_df] ! 0))
   \<and> set [cnt_base, cnt_new] \<subseteq> set (num_columns ([null_df] ! 0))
   \<and> ''field_value'' \<notin> set [cnt_base, cnt_new]
   \<and> \<not> has_column ([null_df] ! 0) ''count'' \<and> ''count'' \<noteq> ''version''
   \<and> (\<exists>long h'. melt_helper 0 [cnt_base, cnt_new] ''count'' [null_df] = (Inr long, h')
          \<and> length (rows (h' ! long)) = 4)"
proof -
  have a: "(0::nat) < length [null_df]" by simp
  have b: "''field_value'' \<in> set (txt_columns ([null_df] ! 0))" by (simp add: null_df_def)
  have c: "set [cnt_base, cnt_new] \<subseteq> set (num_columns ([null_df] ! 0))" by (simp add: null_df_def)
  have d: "''field_value'' \<notin> set [cnt_base, cnt_new]" by code_simp
  have e: "\<not> has_column ([null_df] ! 0) ''count''" by code_simp
  have f: "''count'' \<noteq> ''version''" by simp
  have n: "length (rows ([null_df] ! 0)) = 2" by (simp add: null_df_def)
  from melt_row_count [OF a b c d e f] n
  have "\<exists>long h'. melt_helper 0 [cnt_base, cnt_new] ''count'' [null_df] = (Inr long, h')
          \<and> length (rows (h' ! long)) = 4"
    by auto
  with a b c d e f show ?thesis by blast
qed

subsection \<open>The placeholder label\<close>

text \<open>
  In the frame that \<open>_melt\<close> returns no category is missing: a missing category of the
  table has become the placeholder label, in as many rows as there are value columns.
\<close>

lemma melt_helper_labels:
  assumes "df < length h" and "''field_value'' \<in> set (txt_columns (h ! df))"
    and "set value_cols \<subseteq> set (num_columns (h ! df))"
    and "''field_value'' \<notin> set value_cols"
    and "\<not> has_column (h ! df) value_name" and "value_name \<noteq> ''version''"
  shows "\<exists>long h'. melt_helper df value_cols value_name h = (Inr long, h')
          \<and> categories (h' ! long) =
               concat (map (\<lambda>v. map (\<lambda>c. Some (prepare c)) (categories (h ! df))) value_cols)
          \<and> None \<notin> set (categories (h' ! long))"
proof -
  let ?long = "\<lparr> txt_columns = [''field_value'', ''version''], num_columns = [value_name],
            rows = concat (map (\<lambda>v. map (\<lambda>r. long_row value_name r v) (rows (h ! df))) value_cols) \<rparr>"
  have c: "categories ?long
        = concat (map (\<lambda>v. map (\<lambda>c. Some (prepare c)) (categories (h ! df))) value_cols)"
    by (simp add: map_concat comp_def long_row_def txt_at_def categories_def)
  have "None \<notin> set (concat (map (\<lambda>v. map (\<lambda>c. Some (prepare c)) (categories (h ! df))) value_cols))"
    by auto
  with c have n: "None \<notin> set (categories ?long)"
    by metis
  have "snd (melt_helper df value_cols value_name h) ! Suc (length h) = ?long"
    by (simp add: melt_helper_result [OF assms] nth_append)
  with c n show ?thesis
    by (simp add: melt_helper_result [OF assms])
qed

text \<open>
  Claim C9 at the industry chart. \<open>chart_employer_industry\<close> puts the placeholder label in
  the category order it hands to the chart, but reshapes the table as it is: the rows of
  the charted frame whose industry is missing still have a missing industry, and no row
  of it has the placeholder label.
\<close>

theorem employer_industry_keeps_null:
  "map (\<lambda>r. txt_at r ''industry'') (rows bls_df) = [Some ''Retail Trade'', None]
   \<and> fst (chart_employer_industry stable_desc 0 [bls_df]) = Inr (1, [''Retail Trade'', ''<NULL>''])
   \<and> map (\<lambda>r. txt_at r ''industry'') (rows (snd (chart_employer_industry stable_desc 0 [bls_df]) ! 1))
        = [Some ''Retail Trade'', None, Some ''Retail Trade'', None, Some ''Retail Trade'', None]"
  by code_simp

subsection \<open>Percentages\<close>

lemma get_num_column_of:
  "c \<in> set (num_columns f) \<Longrightarrow> get_num f c = Inr (column_of f c)"
  by (simp add: get_num_def column_of_def)

lemma totals_of_result:
  assumes "df < length h" and "set cols \<subseteq> set (num_columns (h ! df))"
  shows "totals_of df cols h = (Inr (map (\<lambda>c. (c, series_sum (column_of (h ! df) c))) cols), h)"
  using assms(2)
proof (induction cols)
  case Nil
  show ?case by (simp add: ret_def)
next
  case (Cons c cs)
  then have "getitem_num df c h = (Inr (column_of (h ! df) c), h)"
    using assms(1) by (simp add: getitem_num_result column_of_def)
  with Cons show ?case
    by (simp add: io_bind_def ret_def)
qed

lemma lookup_total_map:
  "c \<in> set cols \<Longrightarrow> lookup_total (map (\<lambda>c. (c, g c)) cols) c = Inr (g c)"
  by (induction cols) (auto simp add: lookup_total_def)

lemma pct_loop_result:
  assumes "df < length h" and "p < length h" and "df \<noteq> p"
    and "set cols \<subseteq> set (num_columns (h ! df))"
    and "\<forall>c \<in> set cols. lookup_total totals c = Inr (series_sum (column_of (h ! df) c))"
  shows "pct_loop df p totals cols h = (Inr (), h[p := foldl (pct_step (h ! df)) (h ! p) cols])"
  using assms
proof (induction cols arbitrary: h)
  case Nil
  then show ?case by (simp add: ret_def)
next
  case (Cons c cs)
  let ?t = "series_sum (column_of (h ! df) c)"
  let ?h1 = "h[p := pct_step (h ! df) (h ! p) c]"
  have g: "getitem_num df c h = (Inr (column_of (h ! df) c), h)"
    using Cons.prems by (simp add: getitem_num_result column_of_def)
  have step: "(if truthy ?t
              then io_bind (getitem_num df c) (\<lambda>s. setitem_num p (pct_name c) (series_div_scalar s ?t))
              else setitem_scalar p (pct_name c) (Fin 0)) h = (Inr (), ?h1)"
    using Cons.prems(2) g
    by (simp add: io_bind_def setitem_num_def setitem_scalar_def update_at_def pct_step_def)
  have same: "?h1 ! df = h ! df"
    using Cons.prems(3) by simp
  have rest: "pct_loop df p totals cs ?h1 = (Inr (), ?h1[p := foldl (pct_step (?h1 ! df)) (?h1 ! p) cs])"
    using Cons.prems by (intro Cons.IH) (simp_all add: same)
  have l: "lookup_total totals c = Inr ?t"
    using Cons.prems(5) by simp
  show ?case
    using step rest Cons.prems(2)
    by (simp add: io_bind_def lift_def l same)
qed

lemma compute_percentages_result:
  assumes "df < length h" and "set cols \<subseteq> set (num_columns (h ! df))"
  shows "compute_percentages df cols h =
           (Inr (length h), h @ [foldl (pct_step (h ! df)) (h ! df) cols])"
proof -
  let ?totals = "map (\<lambda>c. (c, series_sum (column_of (h ! df) c))) cols"
  let ?h1 = "h @ [h ! df]"
  have 1: "totals_of df cols h = (Inr ?totals, h)"
    using assms by (rule totals_of_result)
  have 2: "copy_df df h = (Inr (length h), ?h1)"
    using assms(1) by (rule copy_df_result)
  have same: "?h1 ! df = h ! df"
    using assms(1) by (simp add: nth_append)
  have 3: "pct_loop df (length h) ?totals cols ?h1 =
      (Inr (), ?h1[length h := foldl (pct_step (?h1 ! df)) (?h1 ! length h) cols])"
    using assms by (intro pct_loop_result) (simp_all add: same lookup_total_map)
  show ?thesis
    using 1 2 3 by (simp add: compute_percentages_def io_bind_def ret_def same)
qed

lemma column_of_set_num:
  "column_of (set_num g c s) c' =
     (if c' = c then align_to (length (rows g)) NaN s else column_of g c')"
  by (rule nth_equalityI) (simp_all add: column_of_def num_at_set_num nth_align_to)

lemma length_column_of [simp]: "length (column_of f c) = length (rows f)"
  by (simp add: column_of_def)

lemma length_rows_pct_step [simp]: "length (rows (pct_step f g c)) = length (rows g)"
  by (simp add: pct_step_def)

lemma length_rows_pct_loop [simp]: "length (rows (foldl (pct_step f) g cols)) = length (rows g)"
  by (induction cols arbitrary: g) simp_all

lemma column_of_pct_step:
  assumes "length (rows g) = length (rows f)"
  shows "column_of (pct_step f g c) name =
     (if name = pct_name c
      then (if truthy (series_sum (column_of f c))
            then series_div_scalar (column_of f c) (series_sum (column_of f c))
            else replicate (length (rows f)) (Fin 0))
      else column_of g name)"
  using assms
  by (simp add: pct_step_def column_of_set_num series_div_scalar_def)

lemma column_of_pct_loop:
  assumes "length (rows g) = length (rows f)" and "c \<in> set cols" and "distinct (map pct_name cols)"
  shows "column_of (foldl (pct_step f) g cols) (pct_name c) =
     (if truthy (series_sum (column_of f c))
      then series_div_scalar (column_of f c) (series_sum (column_of f c))
      else replicate (length (rows f)) (Fin 0))"
  using assms(2,3)
proof (induction cols rule: rev_induct)
  case Nil
  then show ?case by simp
next
  case (snoc x xs)
  have len: "length (rows (foldl (pct_step f) g xs)) = length (rows f)"
    using assms(1) by simp
  show ?case
  proof (cases "pct_name c = pct_name x")
    case True
    have "c = x"
    proof (rule ccontr)
      assume "c \<noteq> x"
      with snoc.prems(1) have "c \<in> set xs" by simp
      then have "pct_name c \<in> set (map pct_name xs)" by simp
      with True snoc.prems(2) show False by simp
    qed
    then show ?thesis
      by (simp add: column_of_pct_step [OF len])
  next
    case False
    then have "c \<in> set xs" using snoc.prems(1) by auto
    moreover have "distinct (map pct_name xs)" using snoc.prems(2) by simp
    ultimately show ?thesis
      using False snoc.IH by (simp add: column_of_pct_step [OF len])
  qed
qed

lemma distinct_pct_names: "distinct (map pct_name (value_cols_of f))"
proof (cases "has_column f ''cnt_ipeds''")
  case True
  have "distinct (map pct_name [cnt_base, cnt_new, ''cnt_ipeds''])" by code_simp
  with True show ?thesis by (simp add: value_cols_of_def)
next
  case False
  have "distinct (map pct_name [cnt_base, cnt_new])" by code_simp
  with False show ?thesis by (simp add: value_cols_of_def)
qed

lemma series_sum_Cons:
  "series_sum (x # xs) = (if isna x then series_sum xs else num_add x (series_sum xs))"
  by (simp add: series_sum_def)

lemma series_sum_counts:
  "list_all is_count xs \<Longrightarrow>
   series_sum xs = Fin (\<Sum>x\<leftarrow>xs. case x of Fin a \<Rightarrow> a | _ \<Rightarrow> 0)"
proof (induction xs)
  case Nil
  show ?case by (simp add: series_sum_def)
next
  case (Cons x xs)
  then show ?case
    by (cases x) (simp_all add: series_sum_Cons isna_def is_count_def)
qed

lemma series_sum_shares:
  "list_all is_count xs \<Longrightarrow> t \<noteq> 0 \<Longrightarrow>
   series_sum (series_div_scalar xs (Fin t)) = Fin ((\<Sum>x\<leftarrow>xs. case x of Fin a \<Rightarrow> a | _ \<Rightarrow> 0) / t)"
proof (induction xs)
  case Nil
  show ?case by (simp add: series_sum_def series_div_scalar_def)
next
  case (Cons x xs)
  then have "series_sum (series_div_scalar xs (Fin t)) =
      Fin ((\<Sum>x\<leftarrow>xs. case x of Fin a \<Rightarrow> a | _ \<Rightarrow> 0) / t)"
    by simp
  moreover have "series_div_scalar (x # xs) (Fin t) = num_div x (Fin t) # series_div_scalar xs (Fin t)"
    by (simp add: series_div_scalar_def)
  ultimately show ?case
    using Cons.prems
    by (cases x) (simp_all add: series_sum_Cons isna_def is_count_def add_divide_distrib)
qed

lemma shares_sum_to_one:
  assumes "list_all is_count xs" and "series_sum xs \<noteq> Fin 0"
  shows "series_sum (series_div_scalar xs (series_sum xs)) = Fin 1"
proof -
  let ?t = "\<Sum>x\<leftarrow>xs. case x of Fin a \<Rightarrow> a | _ \<Rightarrow> 0"
  have s: "series_sum xs = Fin ?t"
    using assms(1) by (rule series_sum_counts)
  with assms(2) have "?t \<noteq> 0" by simp
  with assms(1) have "series_sum (series_div_scalar xs (Fin ?t)) = Fin (?t / ?t)"
    by (rule series_sum_shares)
  with s \<open>?t \<noteq> 0\<close> show ?thesis by simp
qed

lemma num_at_column_of: "i < length (rows f) \<Longrightarrow> num_at (rows f ! i) c = column_of f c ! i"
  by (simp add: column_of_def)

text \<open>
  Claim C4. When the count columns of the table are numeric columns of it, lines 260-264
  return a new frame \<open>df_pct\<close> with the rows of the table, and for every count column and
  every row: when the sum of the column is zero the percentage is 0; otherwise it is the
  count of the row divided by the sum of the column over all rows, which for a finite
  count and a finite sum is the rational quotient.
\<close>

theorem percentages_defined:
  assumes "df < length h" and "set (value_cols_of (h ! df)) \<subseteq> set (num_columns (h ! df))"
  shows "\<exists>p h'. compute_percentages df (value_cols_of (h ! df)) h = (Inr p, h')
          \<and> p < length h' \<and> length (rows (h' ! p)) = length (rows (h ! df))
          \<and> (\<forall>col \<in> set (value_cols_of (h ! df)). \<forall>i < length (rows (h ! df)).
                (series_sum (column_of (h ! df) col) = Fin 0 \<longrightarrow>
                   num_at (rows (h' ! p) ! i) (pct_name col) = Fin 0)
              \<and> (series_sum (column_of (h ! df) col) \<noteq> Fin 0 \<longrightarrow>
                   num_at (rows (h' ! p) ! i) (pct_name col) =
                     num_div (num_at (rows (h ! df) ! i) col) (series_sum (column_of (h ! df) col)))
              \<and> (\<forall>a t. num_at (rows (h ! df) ! i) col = Fin a
                      \<and> series_sum (column_of (h ! df) col) = Fin t \<and> t \<noteq> 0 \<longrightarrow>
                   num_at (rows (h' ! p) ! i) (pct_name col) = Fin (a / t)))"
proof -
  let ?f = "h ! df"
  let ?g = "foldl (pct_step ?f) ?f (value_cols_of ?f)"
  have r: "compute_percentages df (value_cols_of ?f) h = (Inr (length h), h @ [?g])"
    using assms by (rule compute_percentages_result)
  have cell: "num_at (rows ?g ! i) (pct_name col) =
      (if series_sum (column_of ?f col) = Fin 0 then Fin 0
       else num_div (num_at (rows ?f ! i) col) (series_sum (column_of ?f col)))"
    if "col \<in> set (value_cols_of ?f)" and "i < length (rows ?f)" for col i
  proof -
    have "num_at (rows ?g ! i) (pct_name col) = column_of ?g (pct_name col) ! i"
      using that(2) by (simp add: num_at_column_of)
    also have "column_of ?g (pct_name col) =
      (if truthy (series_sum (column_of ?f col))
       then series_div_scalar (column_of ?f col) (series_sum (column_of ?f col))
       else replicate (length (rows ?f)) (Fin 0))"
      using that(1) distinct_pct_names [of ?f] by (intro column_of_pct_loop) simp_all
    finally show ?thesis
      using that(2) by (simp add: truthy_def series_div_scalar_def column_of_def)
  qed
  have "\<forall>col \<in> set (value_cols_of ?f). \<forall>i < length (rows ?f).
                (series_sum (column_of ?f col) = Fin 0 \<longrightarrow>
                   num_at (rows ?g ! i) (pct_name col) = Fin 0)
              \<and> (series_sum (column_of ?f col) \<noteq> Fin 0 \<longrightarrow>
                   num_at (rows ?g ! i) (pct_name col) =
                     num_div (num_at (rows ?f ! i) col) (series_sum (column_of ?f col)))
              \<and> (\<forall>a t. num_at (rows ?f ! i) col = Fin a
                      \<and> series_sum (column_of ?f col) = Fin t \<and> t \<noteq> 0 \<longrightarrow>
                   num_at (rows ?g ! i) (pct_name col) = Fin (a / t))"
    by (auto simp add: cell)
  then show ?thesis
    using r by (simp add: nth_append)
qed

theorem percentages_defined_witness:
  "(0::nat) < length [zero_df]
   \<and> set (value_cols_of ([zero_df] ! 0)) \<subseteq> set (num_columns ([zero_df] ! 0))
   \<and> series_sum (column_of zero_df cnt_base) = Fin 0
   \<and> series_sum (column_of zero_df cnt_new) = Fin 4
   \<and> (\<exists>p h'. compute_percentages 0 (value_cols_of ([zero_df] ! 0)) [zero_df] = (Inr p, h')
          \<and> num_at (rows (h' ! p) ! 0) (pct_name cnt_base) = Fin 0
          \<and> num_at (rows (h' ! p) ! 1) (pct_name cnt_base) = Fin 0
          \<and> num_at (rows (h' ! p) ! 1) (pct_name cnt_new) = Fin (3 / 4))"
proof -
  have a: "(0::nat) < length [zero_df]" by simp
  have b: "set (value_cols_of ([zero_df] ! 0)) \<subseteq> set (num_columns ([zero_df] ! 0))" by code_simp
  have s0: "series_sum (column_of ([zero_df] ! 0) cnt_base) = Fin 0" by code_simp
  have s1: "series_sum (column_of ([zero_df] ! 0) cnt_new) = Fin 4" by code_simp
  have c: "cnt_base \<in> set (value_cols_of ([zero_df] ! 0))" "cnt_new \<in> set (value_cols_of ([zero_df] ! 0))"
    by code_simp+
  have n: "length (rows ([zero_df] ! 0)) = 2" by (simp add: zero_df_def)
  have x: "num_at (rows ([zero_df] ! 0) ! 1) cnt_new = Fin 3" by code_simp
  from percentages_defined [OF a b]
  obtain p h' where r: "compute_percentages 0 (value_cols_of ([zero_df] ! 0)) [zero_df] = (Inr p, h')"
    and q: "\<forall>col \<in> set (value_cols_of ([zero_df] ! 0)). \<forall>i < length (rows ([zero_df] ! 0)).
                (series_sum (column_of ([zero_df] ! 0) col) = Fin 0 \<longrightarrow>
                   num_at (rows (h' ! p) ! i) (pct_name col) = Fin 0)
              \<and> (\<forall>a t. num_at (rows ([zero_df] ! 0) ! i) col = Fin a
                      \<and> series_sum (column_of ([zero_df] ! 0) col) = Fin t \<and> t \<noteq> 0 \<longrightarrow>
                   num_at (rows (h' ! p) ! i) (pct_name col) = Fin (a / t))"
    by blast
  from q c(1) n s0 have z: "num_at (rows (h' ! p) ! 0) (pct_name cnt_base) = Fin 0"
      "num_at (rows (h' ! p) ! 1) (pct_name cnt_base) = Fin 0"
    by simp_all
  from q c(2) n have "\<forall>a t. num_at (rows ([zero_df] ! 0) ! 1) cnt_new = Fin a
                      \<and> series_sum (column_of ([zero_df] ! 0) cnt_new) = Fin t \<and> t \<noteq> 0 \<longrightarrow>
                   num_at (rows (h' ! p) ! 1) (pct_name cnt_new) = Fin (a / t)"
    by simp
  with x s1 have "num_at (rows (h' ! p) ! 1) (pct_name cnt_new) = Fin (3 / 4)"
    by simp
  with a b s0 s1 r z show ?thesis by simp
qed

subsection \<open>Rounding\<close>

lemma pow2_power_int: "pow2 e = power_int 2 e"
  by (simp add: pow2_def power_int_def inverse_eq_divide power_one_over)

lemma pow2_pos [simp]: "0 < pow2 e"
  by (simp add: pow2_def)

lemma pow2_nonneg [simp]: "0 \<le> pow2 e"
  by (simp add: pow2_def)

lemma pow2_neq0 [simp]: "pow2 e \<noteq> 0"
  by (simp add: pow2_def)

lemma pow2_add: "pow2 (a + b) = pow2 a * pow2 b"
  by (simp add: pow2_power_int power_int_add)

lemma pow2_diff: "pow2 (a - b) = pow2 a / pow2 b"
  by (simp add: pow2_power_int power_int_diff)

lemma pow2_nat: "0 \<le> e \<Longrightarrow> pow2 e = 2 ^ nat e"
  by (simp add: pow2_def)

lemma pow2_mono: "a \<le> b \<Longrightarrow> pow2 a \<le> pow2 b"
  by (simp add: pow2_power_int power_int_increasing)

lemma ilog2_bounds:
  assumes "0 < m"
  shows "pow2 (ilog2 m) \<le> m" and "m < pow2 (ilog2 m + 1)"
proof -
  obtain p q where pq: "quotient_of m = (p, q)" by (cases "quotient_of m")
  then have q: "0 < q" and m: "m = of_int p / of_int q"
    by (simp_all add: quotient_of_denom_pos quotient_of_div)
  with assms have p: "0 < p"
    by (simp add: zero_less_divide_iff)
  let ?d = "bitlen p - bitlen q"
  have bp: "(2::int) ^ nat (bitlen p - 1) \<le> p" "p < 2 ^ nat (bitlen p)"
    using bitlen_bounds [OF p] by simp_all
  have bq: "(2::int) ^ nat (bitlen q - 1) \<le> q" "q < 2 ^ nat (bitlen q)"
    using bitlen_bounds [OF q] by simp_all
  have lp: "1 \<le> bitlen p" and lq: "1 \<le> bitlen q"
    using p q by (simp_all add: bitlen_alt_def)
  have rp: "pow2 (bitlen p - 1) \<le> of_int p" "of_int p < pow2 (bitlen p)"
  proof -
    have "(of_int (2 ^ nat (bitlen p - 1)) :: rat) \<le> of_int p"
      using bp(1) by (simp only: of_int_le_iff)
    then show "pow2 (bitlen p - 1) \<le> of_int p"
      using lp by (simp add: pow2_nat)
    have "(of_int p :: rat) < of_int (2 ^ nat (bitlen p))"
      using bp(2) by (simp only: of_int_less_iff)
    then show "of_int p < pow2 (bitlen p)"
      using lp by (simp add: pow2_nat)
  qed
  have rq: "pow2 (bitlen q - 1) \<le> of_int q" "of_int q < pow2 (bitlen q)"
  proof -
    have "(of_int (2 ^ nat (bitlen q - 1)) :: rat) \<le> of_int q"
      using bq(1) by (simp only: of_int_le_iff)
    then show "pow2 (bitlen q - 1) \<le> of_int q"
      using lq by (simp add: pow2_nat)
    have "(of_int q :: rat) < of_int (2 ^ nat (bitlen q))"
      using bq(2) by (simp only: of_int_less_iff)
    then show "of_int q < pow2 (bitlen q)"
      using lq by (simp add: pow2_nat)
  qed
  have qpos: "(0::rat) < of_int q" using q by simp
  have low: "pow2 (?d - 1) \<le> m"
  proof -
    have "pow2 (?d - 1) = pow2 (bitlen p - 1) / pow2 (bitlen q)"
      by (simp add: pow2_diff [symmetric] algebra_simps)
    also have "\<dots> \<le> of_int p / pow2 (bitlen q)"
      using rp(1) by (intro divide_right_mono) simp_all
    also have "\<dots> \<le> of_int p / of_int q"
      using rq(2) qpos p by (simp add: frac_le)
    finally show ?thesis using m by simp
  qed
  have high: "m < pow2 (?d + 1)"
  proof -
    have "m = of_int p / of_int q" by (rule m)
    also have "\<dots> < pow2 (bitlen p) / of_int q"
      using rp(2) qpos by (intro divide_strict_right_mono) simp_all
    also have "\<dots> \<le> pow2 (bitlen p) / pow2 (bitlen q - 1)"
      using rq(1) by (simp add: frac_le)
    also have "\<dots> = pow2 (?d + 1)"
      by (simp add: pow2_diff [symmetric] algebra_simps)
    finally show ?thesis .
  qed
  show "pow2 (ilog2 m) \<le> m"
    using low by (simp add: ilog2_def pq Let_def)
  show "m < pow2 (ilog2 m + 1)"
    using high by (auto simp add: ilog2_def pq Let_def not_le)
qed

lemma round_half_even_error: "\<bar>of_int (round_half_even q) - q\<bar> \<le> 1 / 2"
proof -
  have "of_int \<lfloor>q\<rfloor> \<le> q" "q < of_int \<lfloor>q\<rfloor> + 1"
    by linarith+
  then show ?thesis
    by (auto simp add: round_half_even_def Let_def abs_le_iff)
qed

lemma round53_error: "\<bar>round53 x - x\<bar> \<le> \<bar>x\<bar> / 2 ^ 53"
proof (cases "x = 0")
  case True
  then show ?thesis by (simp add: round53_def)
next
  case False
  let ?e = "ilog2 \<bar>x\<bar>"
  let ?u = "pow2 (?e - 52)"
  have u: "0 < ?u" by simp
  have u0: "?u \<noteq> 0" by simp
  have "round53 x - x = (of_int (round_half_even (x / ?u)) - x / ?u) * ?u"
    using False u0 by (simp add: round53_def Let_def algebra_simps)
  then have "\<bar>round53 x - x\<bar> = \<bar>of_int (round_half_even (x / ?u)) - x / ?u\<bar> * ?u"
    using u by (simp add: abs_mult)
  also have "\<dots> \<le> (1 / 2) * ?u"
    using round_half_even_error [of "x / ?u"] u by (simp add: mult_right_mono)
  also have "\<dots> = pow2 ?e / 2 ^ 53"
    by (simp add: pow2_diff pow2_nat)
  also have "\<dots> \<le> \<bar>x\<bar> / 2 ^ 53"
    using ilog2_bounds(1) [of "\<bar>x\<bar>"] False by (simp add: divide_right_mono)
  finally show ?thesis .
qed


text \<open>The rounded value has a significand of 53 bits.\<close>

lemma round53_significand:
  assumes "x \<noteq> 0"
  shows "\<exists>n. round53 x = of_int n * pow2 (ilog2 \<bar>x\<bar> - 52) \<and> 2 ^ 52 \<le> \<bar>n\<bar> \<and> \<bar>n\<bar> \<le> 2 ^ 53"
proof -
  let ?e = "ilog2 \<bar>x\<bar>"
  let ?u = "pow2 (?e - 52)"
  let ?q = "x / ?u"
  let ?n = "round_half_even ?q"
  have pos: "0 < \<bar>x\<bar>" using assms by simp
  have u: "?u = pow2 ?e / 2 ^ 52"
    by (simp add: pow2_diff pow2_nat)
  have e1: "pow2 ?e \<le> \<bar>x\<bar>" and e2: "\<bar>x\<bar> < pow2 (?e + 1)"
    using ilog2_bounds [OF pos] by simp_all
  have e3: "pow2 (?e + 1) = 2 * pow2 ?e"
    by (simp add: pow2_add pow2_nat)
  have q: "\<bar>?q\<bar> = \<bar>x\<bar> * 2 ^ 52 / pow2 ?e"
    by (simp add: u abs_mult)
  have "2 ^ 52 \<le> \<bar>x\<bar> * 2 ^ 52 / pow2 ?e"
    using e1 by (simp add: pos_le_divide_eq)
  with q have l: "2 ^ 52 \<le> \<bar>?q\<bar>" by simp
  have "\<bar>x\<bar> * 2 ^ 52 / pow2 ?e < 2 ^ 53"
    using e2 e3 by (simp add: pos_divide_less_eq)
  with q have h: "\<bar>?q\<bar> < 2 ^ 53" by simp
  have r: "\<bar>of_int ?n - ?q\<bar> \<le> 1 / 2"
    by (rule round_half_even_error)
  have "(2 ^ 52 :: rat) - 1 / 2 \<le> \<bar>of_int ?n\<bar>"
    using l r by linarith
  then have "(2 ^ 52 :: rat) - 1 < of_int \<bar>?n\<bar>"
    by simp
  then have "(of_int (2 ^ 52 - 1) :: rat) < of_int \<bar>?n\<bar>"
    by simp
  then have n1: "2 ^ 52 - 1 < \<bar>?n\<bar>"
    by (simp only: of_int_less_iff)
  have "\<bar>of_int ?n\<bar> < (2 ^ 53 :: rat) + 1 / 2"
    using h r by linarith
  then have "of_int \<bar>?n\<bar> < (2 ^ 53 :: rat) + 1"
    by simp
  then have "(of_int \<bar>?n\<bar> :: rat) < of_int (2 ^ 53 + 1)"
    by simp
  then have n2: "\<bar>?n\<bar> < 2 ^ 53 + 1"
    by (simp only: of_int_less_iff)
  have "round53 x = of_int ?n * ?u"
    using assms by (simp add: round53_def Let_def)
  with n1 n2 show ?thesis
    by (intro exI [of _ ?n]) simp
qed


lemma round53_zero [simp]: "round53 0 = 0"
  by (simp add: round53_def)

lemma float64_of_simps [simp]:
  "float64_of (Fin a) = Fin (round53 a)" "float64_of NaN = NaN"
  by (simp_all add: float64_of_def)

lemma value_of_simps [simp]:
  "value_of (Fin a) = a" "value_of NaN = 0"
  by (simp_all add: value_of_def)

lemma natural_count_is_count: "natural_count x \<Longrightarrow> is_count x"
  by (cases x) (simp_all add: natural_count_def is_count_def)

lemma natural_count_nonneg: "natural_count x \<Longrightarrow> 0 \<le> value_of x"
  by (cases x) (simp_all add: natural_count_def value_of_def)

lemma series_sum_value_of:
  "list_all is_count xs \<Longrightarrow> series_sum xs = Fin (\<Sum>x\<leftarrow>xs. value_of x)"
proof -
  have "value_of = (\<lambda>x. case x of Fin a \<Rightarrow> a | _ \<Rightarrow> 0)"
    by (simp add: fun_eq_iff value_of_def)
  then show "list_all is_count xs \<Longrightarrow> series_sum xs = Fin (\<Sum>x\<leftarrow>xs. value_of x)"
    by (simp add: series_sum_counts)
qed

lemma series_sum_float_shares:
  "list_all is_count xs \<Longrightarrow> t \<noteq> 0 \<Longrightarrow>
   series_sum (map float64_of (series_div_scalar xs (Fin t))) = Fin (\<Sum>x\<leftarrow>xs. round53 (value_of x / t))"
proof (induction xs)
  case Nil
  show ?case by (simp add: series_sum_def series_div_scalar_def)
next
  case (Cons x xs)
  then have "series_sum (map float64_of (series_div_scalar xs (Fin t))) =
      Fin (\<Sum>x\<leftarrow>xs. round53 (value_of x / t))"
    by simp
  moreover have "series_div_scalar (x # xs) (Fin t) = num_div x (Fin t) # series_div_scalar xs (Fin t)"
    by (simp add: series_div_scalar_def)
  ultimately show ?case
    using Cons.prems
    by (cases x) (simp_all add: series_sum_Cons isna_def is_count_def)
qed

lemma sum_round53_error:
  "\<bar>(\<Sum>x\<leftarrow>xs. round53 (f x)) - (\<Sum>x\<leftarrow>xs. f x)\<bar> \<le> (\<Sum>x\<leftarrow>xs. \<bar>f x\<bar>) / 2 ^ 53"
proof (induction xs)
  case Nil
  show ?case by simp
next
  case (Cons x xs)
  have "\<bar>(round53 (f x) + (\<Sum>x\<leftarrow>xs. round53 (f x))) - (f x + (\<Sum>x\<leftarrow>xs. f x))\<bar>
      \<le> \<bar>round53 (f x) - f x\<bar> + \<bar>(\<Sum>x\<leftarrow>xs. round53 (f x)) - (\<Sum>x\<leftarrow>xs. f x)\<bar>"
    by linarith
  also have "\<dots> \<le> \<bar>f x\<bar> / 2 ^ 53 + (\<Sum>x\<leftarrow>xs. \<bar>f x\<bar>) / 2 ^ 53"
    using round53_error [of "f x"] Cons.IH by linarith
  finally show ?case
    by (simp add: add_divide_distrib)
qed

lemma sum_abs_shares:
  assumes "list_all natural_count xs" and "0 < t"
  shows "(\<Sum>x\<leftarrow>xs. \<bar>value_of x / t\<bar>) = (\<Sum>x\<leftarrow>xs. value_of x) / t"
  using assms(1)
proof (induction xs)
  case Nil
  show ?case by simp
next
  case (Cons x xs)
  then have "0 \<le> value_of x" by (simp add: natural_count_nonneg)
  with assms(2) have "\<bar>value_of x / t\<bar> = value_of x / t" by simp
  with Cons show ?case by (simp add: add_divide_distrib)
qed

lemma sum_shares: "(\<Sum>x\<leftarrow>xs. value_of x / t) = (\<Sum>x\<leftarrow>xs. value_of x) / t"
  by (induction xs) (simp_all add: add_divide_distrib)

lemma float_shares_near_one:
  assumes "list_all natural_count xs" and "series_sum xs = Fin t" and "t \<noteq> 0"
  shows "\<exists>s. series_sum (map float64_of (series_div_scalar xs (series_sum xs))) = Fin s
           \<and> \<bar>s - 1\<bar> \<le> 1 / 2 ^ 53"
proof -
  have c: "list_all is_count xs"
    using assms(1) by (simp add: list_all_iff natural_count_is_count)
  then have t: "t = (\<Sum>x\<leftarrow>xs. value_of x)"
    using assms(2) by (simp add: series_sum_value_of)
  have "0 \<le> (\<Sum>x\<leftarrow>xs. value_of x)"
    using assms(1) by (intro sum_list_nonneg) (auto simp add: list_all_iff natural_count_nonneg)
  with t assms(3) have pos: "0 < t" by simp
  let ?s = "\<Sum>x\<leftarrow>xs. round53 (value_of x / t)"
  have 1: "series_sum (map float64_of (series_div_scalar xs (Fin t))) = Fin ?s"
    using c assms(3) by (rule series_sum_float_shares)
  have "\<bar>?s - (\<Sum>x\<leftarrow>xs. value_of x / t)\<bar> \<le> (\<Sum>x\<leftarrow>xs. \<bar>value_of x / t\<bar>) / 2 ^ 53"
    by (rule sum_round53_error)
  also have "(\<Sum>x\<leftarrow>xs. \<bar>value_of x / t\<bar>) = 1"
    using sum_abs_shares [OF assms(1) pos] t pos by simp
  also have "(\<Sum>x\<leftarrow>xs. value_of x / t) = 1"
    using sum_shares [of t xs] t pos by simp
  finally have "\<bar>?s - 1\<bar> \<le> 1 / 2 ^ 53" .
  with 1 assms(2) show ?thesis by simp
qed


text \<open>
  Claim C5, as amended. When a count column holds natural-number counts (or missing
  values) whose sum is not zero and below \<open>2 ^ 53\<close>, the float64 percentages of that
  column in \<open>df_pct\<close> sum to 1 within rounding: added exactly, they differ from 1 by at
  most \<open>2 ^ -53\<close>.
\<close>

theorem percentages_sum_within_rounding:
  assumes "df < length h" and "set (value_cols_of (h ! df)) \<subseteq> set (num_columns (h ! df))"
    and "col \<in> set (value_cols_of (h ! df))"
    and "list_all natural_count (column_of (h ! df) col)"
    and "series_sum (column_of (h ! df) col) = Fin t" and "t \<noteq> 0" and "t < 2 ^ 53"
  shows "\<exists>p h' s. compute_percentages df (value_cols_of (h ! df)) h = (Inr p, h')
          \<and> series_sum (map float64_of (column_of (h' ! p) (pct_name col))) = Fin s
          \<and> \<bar>s - 1\<bar> \<le> 1 / 2 ^ 53"
proof -
  let ?f = "h ! df"
  let ?g = "foldl (pct_step ?f) ?f (value_cols_of ?f)"
  have r: "compute_percentages df (value_cols_of ?f) h = (Inr (length h), h @ [?g])"
    using assms(1,2) by (rule compute_percentages_result)
  have "column_of ?g (pct_name col) =
      (if truthy (series_sum (column_of ?f col))
       then series_div_scalar (column_of ?f col) (series_sum (column_of ?f col))
       else replicate (length (rows ?f)) (Fin 0))"
    using assms(3) distinct_pct_names [of ?f] by (intro column_of_pct_loop) simp_all
  then have c: "column_of ?g (pct_name col) =
      series_div_scalar (column_of ?f col) (series_sum (column_of ?f col))"
    using assms(5,6) by (simp add: truthy_def)
  obtain s where "series_sum (map float64_of (series_div_scalar (column_of ?f col) (series_sum (column_of ?f col)))) = Fin s"
    and "\<bar>s - 1\<bar> \<le> 1 / 2 ^ 53"
    using float_shares_near_one [OF assms(4,5,6)] by auto
  with r c show ?thesis by simp
qed

theorem percentages_sum_within_rounding_witness:
  "(0::nat) < length [six_df]
   \<and> set (value_cols_of ([six_df] ! 0)) \<subseteq> set (num_columns ([six_df] ! 0))
   \<and> cnt_base \<in> set (value_cols_of ([six_df] ! 0))
   \<and> list_all natural_count (column_of ([six_df] ! 0) cnt_base)
   \<and> series_sum (column_of ([six_df] ! 0) cnt_base) = Fin 6 \<and> (6::rat) \<noteq> 0 \<and> (6::rat) < 2 ^ 53
   \<and> (\<exists>p h' s. compute_percentages 0 (value_cols_of ([six_df] ! 0)) [six_df] = (Inr p, h')
          \<and> series_sum (map float64_of (column_of (h' ! p) (pct_name cnt_base))) = Fin s
          \<and> \<bar>s - 1\<bar> \<le> 1 / 2 ^ 53)"
proof -
  have a: "(0::nat) < length [six_df]" by simp
  have b: "set (value_cols_of ([six_df] ! 0)) \<subseteq> set (num_columns ([six_df] ! 0))" by code_simp
  have c: "cnt_base \<in> set (value_cols_of ([six_df] ! 0))" by code_simp
  have d: "list_all natural_count (column_of ([six_df] ! 0) cnt_base)" by code_simp
  have e: "series_sum (column_of ([six_df] ! 0) cnt_base) = Fin 6" by code_simp
  have f: "(6::rat) \<noteq> 0" "(6::rat) < 2 ^ 53" by simp_all
  from percentages_sum_within_rounding [OF a b c d e f] a b c d e f show ?thesis by blast
qed

text \<open>
  The claim as stated fails: on a table of six rows of count 1 every float64 percentage
  is the float64 nearest to 1/6, which is below 1/6; added exactly the six give
  \<open>1 - 2 ^ -54\<close>, and added in float64 from left to right they give \<open>1 - 2 ^ -53\<close>,
  which prints as 0.9999999999999999.
\<close>

theorem percentages_sum_counterexample:
  "column_of six_df cnt_base = replicate 6 (Fin 1)
   \<and> fst (compute_percentages 0 (value_cols_of six_df) [six_df]) = Inr 1
   \<and> map float64_of (column_of (snd (compute_percentages 0 (value_cols_of six_df) [six_df]) ! 1) (pct_name cnt_base))
       = replicate 6 (Fin (6004799503160661 / 36028797018963968))
   \<and> series_sum (replicate 6 (Fin (6004799503160661 / 36028797018963968))) = Fin (1 - 1 / 2 ^ 54)
   \<and> float_sum (replicate 6 (6004799503160661 / 36028797018963968)) = 1 - 1 / 2 ^ 53
   \<and> (1 - 1 / 2 ^ 54 :: rat) \<noteq> 1 \<and> (1 - 1 / 2 ^ 53 :: rat) \<noteq> 1"
  by code_simp

subsection \<open>The batch run\<close>

lemma try_create_raised:
  "execute_ddl g (create_statement name sql) w = (Some e, w') \<Longrightarrow>
   try_create g name sql (n, w, out) = (n, w', out @ [Failed name e])"
  by (simp add: try_create_def)

lemma try_create_returned:
  "execute_ddl g (create_statement name sql) w = (None, w') \<Longrightarrow>
   try_create g name sql (n, w, out) = (Suc n, w', out @ [Created name])"
  by (simp add: try_create_def)

lemma run_statements_cons:
  "run_statements g (s # rest) w =
     ((fst s, fst (execute_ddl g (snd s) w)) # fst (run_statements g rest (snd (execute_ddl g (snd s) w))),
      snd (run_statements g rest (snd (execute_ddl g (snd s) w))))"
  by (cases s) (simp add: case_prod_beta)

lemma run_statements_append:
  "run_statements g (xs @ ys) w =
     (fst (run_statements g xs w) @ fst (run_statements g ys (snd (run_statements g xs w))),
      snd (run_statements g ys (snd (run_statements g xs w))))"
  by (induction xs arbitrary: w) (simp_all add: run_statements_cons del: run_statements.simps(2))

lemma run_statements_length: "length (fst (run_statements g stmts w)) = length stmts"
  by (induction stmts arbitrary: w) (simp_all add: run_statements_cons del: run_statements.simps(2))

lemma run_statements_nth:
  "i < length stmts \<Longrightarrow>
   fst (run_statements g stmts w) ! i =
     (fst (stmts ! i), fst (execute_ddl g (snd (stmts ! i)) (warehouse_after g stmts w i)))"
proof (induction stmts arbitrary: i w)
  case Nil
  then show ?case by simp
next
  case (Cons s stmts)
  show ?case
  proof (cases i)
    case 0
    then show ?thesis by (simp add: warehouse_after_def run_statements_cons del: run_statements.simps(2))
  next
    case (Suc j)
    with Cons.prems have "j < length stmts" by simp
    from Cons.IH [OF this, of "snd (execute_ddl g (snd s) w)"] show ?thesis
      by (simp add: Suc warehouse_after_def run_statements_cons del: run_statements.simps(2))
  qed
qed

lemma try_create_run:
  "try_create g name sql (n, w, out) =
     (n + length (filter returned (fst (run_statements g [(name, create_statement name sql)] w))),
      snd (run_statements g [(name, create_statement name sql)] w),
      out @ map line_of (fst (run_statements g [(name, create_statement name sql)] w)))"
  by (cases "execute_ddl g (create_statement name sql) w")
     (auto simp add: try_create_def returned_def split: option.splits)

lemma employer_field_run:
  "employer_field g ex wh item (n, w, out) =
     (n + length (filter returned (fst (run_statements g (field_statements g ex wh item) w))),
      snd (run_statements g (field_statements g ex wh item) w),
      out @ map line_of (fst (run_statements g (field_statements g ex wh item) w)))"
proof -
  obtain field_name fmap where item: "item = (field_name, fmap)" by (cases item)
  show ?thesis
    unfolding item employer_field_def field_statements_def Let_def prod.case
    by (simp only: try_create_run run_statements_cons run_statements.simps fst_conv snd_conv
          list.map filter.simps append_Cons append_Nil append_assoc list.size)
       (simp split: if_splits)
qed

lemma employer_loop_run:
  "fold (employer_field g ex wh) items (n, w, out) =
     (n + length (filter returned (fst (run_statements g (concat (map (field_statements g ex wh) items)) w))),
      snd (run_statements g (concat (map (field_statements g ex wh) items)) w),
      out @ map line_of (fst (run_statements g (concat (map (field_statements g ex wh) items)) w)))"
proof (induction items arbitrary: n w out)
  case Nil
  show ?case by simp
next
  case (Cons item items)
  show ?case
    by (simp add: employer_field_run Cons.IH run_statements_append)
qed

lemma employer_main_run:
  "employer_main g meta w =
     (snd (run_statements g (employer_statements g meta) w),
      Rebuilding # map line_of (fst (run_statements g (employer_statements g meta) w))
        @ [Summary (length (filter returned (fst (run_statements g (employer_statements g meta) w))))])"
  by (simp add: employer_main_def Let_def employer_loop_run employer_statements_def)

lemma employer_statements_names:
  "map fst (employer_statements g meta) = employer_tables g meta"
proof -
  have "map fst (field_statements g ex wh item) =
      [make_kpi_name g ''employers'' (fst item), make_comp_name g ''employers'' (fst item),
       make_comp_lc_name g ''employers'' (fst item)]" for ex wh item
    by (cases item) (simp add: field_statements_def Let_def)
  then show ?thesis
    by (simp add: employer_statements_def employer_tables_def map_concat comp_def)
qed


lemma employer_statements_length:
  "length (employer_statements g meta) = 3 * length (topic_fields meta)"
proof -
  have "length (employer_tables g meta) = 3 * length (topic_fields meta)"
    unfolding employer_tables_def by (induction "topic_fields meta") (simp_all add: length_concat comp_def sum_list_triv)
  then show ?thesis
    using employer_statements_names [of g meta, THEN arg_cong, of length] by simp
qed

lemma field_statements_create:
  "s \<in> set (field_statements g ex wh item) \<Longrightarrow>
   prefix (''CREATE OR REPLACE TABLE '' @ fst s @ '' AS'' @ [CHR 0x0A]) (snd s)"
  by (cases item) (auto simp add: field_statements_def Let_def create_statement_def)

lemma employer_statements_create:
  "s \<in> set (employer_statements g meta) \<Longrightarrow>
   prefix (''CREATE OR REPLACE TABLE '' @ fst s @ '' AS'' @ [CHR 0x0A]) (snd s)"
  unfolding employer_statements_def using field_statements_create by fastforce

lemma line_of_case:
  "line_of (name, r) = (case r of None \<Rightarrow> Created name | Some e \<Rightarrow> Failed name e)"
  by (cases r) simp_all

lemma employer_main_line:
  assumes "i < length (employer_statements g meta)"
  shows "snd (employer_main g meta w) ! Suc i =
          (case fst (execute_ddl g (snd (employer_statements g meta ! i))
                  (warehouse_after g (employer_statements g meta) w i)) of
             None \<Rightarrow> Created (fst (employer_statements g meta ! i))
           | Some e \<Rightarrow> Failed (fst (employer_statements g meta ! i)) e)"
proof -
  let ?rs = "fst (run_statements g (employer_statements g meta) w)"
  have len: "i < length (map line_of ?rs)"
    using assms by (simp add: run_statements_length)
  have "snd (employer_main g meta w) ! Suc i = (map line_of ?rs @ [Summary (length (filter returned ?rs))]) ! i"
    by (simp add: employer_main_run)
  also have "\<dots> = map line_of ?rs ! i"
    using len by (simp only: nth_append if_True)
  also have "\<dots> = line_of (?rs ! i)"
    using len by simp
  finally show ?thesis
    by (simp add: run_statements_nth [OF assms] line_of_case)
qed

lemma employer_main_count:
  "length (filter returned (fst (run_statements g stmts w))) =
   length (filter (\<lambda>i. fst (execute_ddl g (snd (stmts ! i)) (warehouse_after g stmts w i)) = None)
             [0..<length stmts])"
proof -
  let ?rs = "fst (run_statements g stmts w)"
  have "?rs = map (\<lambda>i. ?rs ! i) [0..<length stmts]"
    using map_nth [of ?rs] by (simp add: run_statements_length)
  also have "\<dots> = map (\<lambda>i. (fst (stmts ! i), fst (execute_ddl g (snd (stmts ! i)) (warehouse_after g stmts w i))))
                   [0..<length stmts]"
    by (rule map_cong) (simp_all add: run_statements_nth)
  finally have "?rs = map (\<lambda>i. (fst (stmts ! i), fst (execute_ddl g (snd (stmts ! i)) (warehouse_after g stmts w i))))
                   [0..<length stmts]" .
  then have "length (filter returned ?rs) =
     length (filter returned (map (\<lambda>i. (fst (stmts ! i), fst (execute_ddl g (snd (stmts ! i)) (warehouse_after g stmts w i))))
                   [0..<length stmts]))"
    by simp
  then show ?thesis
    by (simp add: filter_map comp_def returned_def)
qed

lemma warehouse_after_all:
  "warehouse_after g stmts w (length stmts) = snd (run_statements g stmts w)"
  by (simp add: warehouse_after_def)

text \<open>
  Claim C3, as amended. The employer batch run hands every statement of every field to
  \<open>execute_ddl\<close>, in the order of the script and each on the warehouse that the statement
  before it left, whatever has failed before: there are three statements per field, each
  a \<open>CREATE OR REPLACE TABLE\<close> of the table it is logged under. The log is the opening
  line, then one line per statement, then the summary. The line of a statement whose
  \<open>execute_ddl\<close> raises is the failure line with the name of that table and the error;
  the line of a statement that returns is the success line with the name of the table.
  The summary counts the statements that returned, and the run ends with the warehouse
  that the last statement left. Within one \<open>try\<close> block, a statement that raises leaves
  the count as it is and hands the state on; a statement that returns adds one to the
  count. The education rerun script has no handler: when its one statement raises, the
  script ends with that error and has printed nothing; when it returns, the script prints
  its \<open>Done\<close> line.
\<close>

theorem batch_run_continues:
  "employer_main g meta w =
     (warehouse_after g (employer_statements g meta) w (length (employer_statements g meta)),
      Rebuilding # map line_of (fst (run_statements g (employer_statements g meta) w))
        @ [Summary (length (filter (\<lambda>i. fst (execute_ddl g (snd (employer_statements g meta ! i))
                                      (warehouse_after g (employer_statements g meta) w i)) = None)
                              [0..<length (employer_statements g meta)]))])
   \<and> map fst (employer_statements g meta) = employer_tables g meta
   \<and> length (employer_statements g meta) = 3 * length (topic_fields meta)
   \<and> length (snd (employer_main g meta w)) = length (employer_statements g meta) + 2
   \<and> (\<forall>s \<in> set (employer_statements g meta).
        prefix (''CREATE OR REPLACE TABLE '' @ fst s @ '' AS'' @ [CHR 0x0A]) (snd s))
   \<and> (\<forall>i < length (employer_statements g meta).
        snd (employer_main g meta w) ! Suc i =
          (case fst (execute_ddl g (snd (employer_statements g meta ! i))
                  (warehouse_after g (employer_statements g meta) w i)) of
             None \<Rightarrow> Created (fst (employer_statements g meta ! i))
           | Some e \<Rightarrow> Failed (fst (employer_statements g meta ! i)) e))
   \<and> (execute_ddl g (create_statement name sql) w = (Some e, w1) \<longrightarrow>
        try_create g name sql (n, w, out) = (n, w1, out @ [Failed name e]))
   \<and> (execute_ddl g (create_statement name sql) w = (None, w1) \<longrightarrow>
        try_create g name sql (n, w, out) = (Suc n, w1, out @ [Created name]))
   \<and> (execute_ddl g (edu_statement g meta fmap) w = (Some e, w1) \<longrightarrow>
        edu_rerun g meta fmap w = (Inl e, w1, []))
   \<and> (execute_ddl g (edu_statement g meta fmap) w = (None, w1) \<longrightarrow>
        edu_rerun g meta fmap w = (Inr (), w1, [Done_table (edu_table g)]))"
proof -
  have 1: "employer_main g meta w =
     (warehouse_after g (employer_statements g meta) w (length (employer_statements g meta)),
      Rebuilding # map line_of (fst (run_statements g (employer_statements g meta) w))
        @ [Summary (length (filter (\<lambda>i. fst (execute_ddl g (snd (employer_statements g meta ! i))
                                      (warehouse_after g (employer_statements g meta) w i)) = None)
                              [0..<length (employer_statements g meta)]))])"
    by (simp only: employer_main_run warehouse_after_all employer_main_count)
  have 4: "length (snd (employer_main g meta w)) = length (employer_statements g meta) + 2"
    by (simp add: employer_main_run run_statements_length)
  have 5: "\<forall>s \<in> set (employer_statements g meta).
        prefix (''CREATE OR REPLACE TABLE '' @ fst s @ '' AS'' @ [CHR 0x0A]) (snd s)"
    using employer_statements_create by blast
  have 6: "\<forall>i < length (employer_statements g meta).
        snd (employer_main g meta w) ! Suc i =
          (case fst (execute_ddl g (snd (employer_statements g meta ! i))
                  (warehouse_after g (employer_statements g meta) w i)) of
             None \<Rightarrow> Created (fst (employer_statements g meta ! i))
           | Some e \<Rightarrow> Failed (fst (employer_statements g meta ! i)) e)"
    by (intro allI impI) (rule employer_main_line)
  have 7: "execute_ddl g (create_statement name sql) w = (Some e, w1) \<longrightarrow>
        try_create g name sql (n, w, out) = (n, w1, out @ [Failed name e])"
    by (simp add: try_create_raised)
  have 8: "execute_ddl g (create_statement name sql) w = (None, w1) \<longrightarrow>
        try_create g name sql (n, w, out) = (Suc n, w1, out @ [Created name])"
    by (simp add: try_create_returned)
  have 9: "execute_ddl g (edu_statement g meta fmap) w = (Some e, w1) \<longrightarrow>
        edu_rerun g meta fmap w = (Inl e, w1, [])"
    by (simp add: edu_rerun_def)
  have 10: "execute_ddl g (edu_statement g meta fmap) w = (None, w1) \<longrightarrow>
        edu_rerun g meta fmap w = (Inr (), w1, [Done_table (edu_table g)])"
    by (simp add: edu_rerun_def)
  from 1 employer_statements_names [of g meta] employer_statements_length [of g meta] 4 5 6 7 8 9 10
  show ?thesis by (intro conjI)
qed


theorem batch_run_continues_witness:
  "employer_main test_generator test_meta [] =
     ([create_statement ''KPI_employers_BGI_COMPANY_NAME'' ''SELECT 1'',
       create_statement ''COMP_employers_BGI_COMPANY_NAME'' ''SELECT 1'',
       create_statement ''COMPLC_employers_BGI_COMPANY_NAME'' ''SELECT 1''],
      [Rebuilding,
       Failed ''KPI_employers_BGI_NAICS2_NAME'' ''missing source table'',
       Failed ''COMP_employers_BGI_NAICS2_NAME'' ''missing source table'',
       Failed ''COMPLC_employers_BGI_NAICS2_NAME'' ''missing source table'',
       Created ''KPI_employers_BGI_COMPANY_NAME'',
       Created ''COMP_employers_BGI_COMPANY_NAME'',
       Created ''COMPLC_employers_BGI_COMPANY_NAME'',
       Summary 3])
   \<and> (1 :: nat) < length (employer_statements test_generator test_meta)
   \<and> execute_ddl test_generator (snd (employer_statements test_generator test_meta ! 1))
        (warehouse_after test_generator (employer_statements test_generator test_meta) [] 1)
        = (Some ''missing source table'', [])
   \<and> snd (employer_main test_generator test_meta []) ! Suc 1 =
        Failed ''COMP_employers_BGI_NAICS2_NAME'' ''missing source table''
   \<and> (''COMP_employers_BGI_NAICS2_NAME'', create_statement ''COMP_employers_BGI_NAICS2_NAME'' ''SELECT 1'')
        \<in> set (employer_statements test_generator test_meta)
   \<and> prefix (''CREATE OR REPLACE TABLE COMP_employers_BGI_NAICS2_NAME AS'' @ [CHR 0x0A])
        (create_statement ''COMP_employers_BGI_NAICS2_NAME'' ''SELECT 1'')
   \<and> execute_ddl failing_generator (create_statement ''T'' ''Q'') [] = (Some ''permission denied'', [])
   \<and> try_create failing_generator ''T'' ''Q'' (0, [], []) = (0, [], [Failed ''T'' ''permission denied''])
   \<and> execute_ddl test_generator (create_statement ''T'' ''Q'') [] = (None, [create_statement ''T'' ''Q''])
   \<and> try_create test_generator ''T'' ''Q'' (0, [], []) = (1, [create_statement ''T'' ''Q''], [Created ''T''])
   \<and> execute_ddl failing_generator (edu_statement failing_generator test_meta test_field) []
        = (Some ''permission denied'', [])
   \<and> edu_rerun failing_generator test_meta test_field [] = (Inl ''permission denied'', [], [])
   \<and> execute_ddl test_generator (edu_statement test_generator test_meta test_field) []
        = (None, [edu_statement test_generator test_meta test_field])
   \<and> edu_rerun test_generator test_meta test_field []
        = (Inr (), [edu_statement test_generator test_meta test_field], [Done_table (edu_table test_generator)])"
proof -
  let ?stmts = "employer_statements test_generator test_meta"
  have a: "execute_ddl failing_generator (create_statement ''T'' ''Q'') [] = (Some ''permission denied'', [])"
    by (simp add: failing_generator_def)
  have b: "execute_ddl test_generator (create_statement ''T'' ''Q'') [] = (None, [create_statement ''T'' ''Q''])"
    by code_simp
  have c: "execute_ddl failing_generator (edu_statement failing_generator test_meta test_field) []
        = (Some ''permission denied'', [])"
    by (simp add: failing_generator_def)
  have d: "execute_ddl test_generator (edu_statement test_generator test_meta test_field) []
        = (None, [edu_statement test_generator test_meta test_field])"
    by code_simp
  have len: "(1 :: nat) < length ?stmts"
    by code_simp
  have ex: "execute_ddl test_generator (snd (?stmts ! 1)) (warehouse_after test_generator ?stmts [] 1)
        = (Some ''missing source table'', [])"
    by code_simp
  have mem: "(''COMP_employers_BGI_NAICS2_NAME'', create_statement ''COMP_employers_BGI_NAICS2_NAME'' ''SELECT 1'')
        \<in> set ?stmts"
    by code_simp
  have name: "fst (?stmts ! 1) = ''COMP_employers_BGI_NAICS2_NAME''"
    by code_simp
  have rhs: "(warehouse_after test_generator ?stmts [] (length ?stmts),
      Rebuilding # map line_of (fst (run_statements test_generator ?stmts []))
        @ [Summary (length (filter (\<lambda>i. fst (execute_ddl test_generator (snd (?stmts ! i))
                                      (warehouse_after test_generator ?stmts [] i)) = None)
                              [0..<length ?stmts]))]) =
     ([create_statement ''KPI_employers_BGI_COMPANY_NAME'' ''SELECT 1'',
       create_statement ''COMP_employers_BGI_COMPANY_NAME'' ''SELECT 1'',
       create_statement ''COMPLC_employers_BGI_COMPANY_NAME'' ''SELECT 1''],
      [Rebuilding,
       Failed ''KPI_employers_BGI_NAICS2_NAME'' ''missing source table'',
       Failed ''COMP_employers_BGI_NAICS2_NAME'' ''missing source table'',
       Failed ''COMPLC_employers_BGI_NAICS2_NAME'' ''missing source table'',
       Created ''KPI_employers_BGI_COMPANY_NAME'',
       Created ''COMP_employers_BGI_COMPANY_NAME'',
       Created ''COMPLC_employers_BGI_COMPANY_NAME'',
       Summary 3])"
    by code_simp
  note f = batch_run_continues [of failing_generator test_meta "[]" "''T''" "''Q''" "''permission denied''" "[]" 0 "[]" test_field]
  note t = batch_run_continues [of test_generator test_meta "[]" "''T''" "''Q''" "[]" "[create_statement ''T'' ''Q'']" 0 "[]" test_field]
  note u = batch_run_continues [of test_generator test_meta "[]" _ _ _ "[edu_statement test_generator test_meta test_field]" _ _ test_field]
  from f a c have 1: "try_create failing_generator ''T'' ''Q'' (0, [], []) = (0, [], [Failed ''T'' ''permission denied''])"
    and 2: "edu_rerun failing_generator test_meta test_field [] = (Inl ''permission denied'', [], [])"
    by simp_all
  from t b have 3: "try_create test_generator ''T'' ''Q'' (0, [], []) = (1, [create_statement ''T'' ''Q''], [Created ''T''])"
    by simp
  from u d have 4: "edu_rerun test_generator test_meta test_field []
        = (Inr (), [edu_statement test_generator test_meta test_field], [Done_table (edu_table test_generator)])"
    by simp
  from t [THEN conjunct1] rhs have 5: "employer_main test_generator test_meta [] =
     ([create_statement ''KPI_employers_BGI_COMPANY_NAME'' ''SELECT 1'',
       create_statement ''COMP_employers_BGI_COMPANY_NAME'' ''SELECT 1'',
       create_statement ''COMPLC_employers_BGI_COMPANY_NAME'' ''SELECT 1''],
      [Rebuilding,
       Failed ''KPI_employers_BGI_NAICS2_NAME'' ''missing source table'',
       Failed ''COMP_employers_BGI_NAICS2_NAME'' ''missing source table'',
       Failed ''COMPLC_employers_BGI_NAICS2_NAME'' ''missing source table'',
       Created ''KPI_employers_BGI_COMPANY_NAME'',
       Created ''COMP_employers_BGI_COMPANY_NAME'',
       Created ''COMPLC_employers_BGI_COMPANY_NAME'',
       Summary 3])"
    by (simp only:)
  note lines = t [THEN conjunct2, THEN conjunct2, THEN conjunct2, THEN conjunct2, THEN conjunct2, THEN conjunct1]
  from lines [rule_format, OF len] have 6: "snd (employer_main test_generator test_meta []) ! Suc 1 =
        Failed ''COMP_employers_BGI_NAICS2_NAME'' ''missing source table''"
    by (simp only: ex name fst_conv option.case)
  note stm = t [THEN conjunct2, THEN conjunct2, THEN conjunct2, THEN conjunct2, THEN conjunct1]
  from stm [rule_format, OF mem] have 7: "prefix (''CREATE OR REPLACE TABLE COMP_employers_BGI_NAICS2_NAME AS'' @ [CHR 0x0A])
        (create_statement ''COMP_employers_BGI_NAICS2_NAME'' ''SELECT 1'')"
    by simp
  from 5 len ex 6 mem 7 a 1 b 3 c 2 d 4 show ?thesis
    by (intro conjI)
qed

text \<open>
  The claim as stated fails at the education rerun script: with a warehouse that rejects
  the statement, the script ends with the exception; it has logged neither the table name
  nor a count.
\<close>

theorem edu_rerun_failure_counterexample:
  "execute_ddl failing_generator (edu_statement failing_generator test_meta test_field) []
     = (Some ''permission denied'', [])
   \<and> edu_rerun failing_generator test_meta test_field [] = (Inl ''permission denied'', [], [])"
  by code_simp

end
